theory Spec2Isabelle
  imports Main
begin

section \<open>The reference-counted base class of epSmartObject.h\<close>

text \<open>
  The header defines the class \<open>SmartObject\<close>: a counter \<open>m_refCount\<close>, a pointer
  \<open>m_refCounterLock\<close> to a lock object and the lock policy \<open>m_lockPolicy\<close>. The inline
  bodies of the header (the \<open>_DEBUG\<close> branch, lines 95 to 200) are the code embedded
  here. Objects and locks live in a store; every effect of a statement (a call of
  \<open>Lock\<close> or \<open>Unlock\<close>, a write of the counter, a log line, a \<open>delete\<close>) is appended to
  a trace in program order, so that the order of effects can be stated. The call-site
  arguments of the bodies (file, function, line) only feed the log line and are left
  out. The lock classes themselves are external: the model records the calls made on
  a lock, not what the lock does.
\<close>

subsection \<open>Data\<close>

type_synonym addr = nat

text \<open>
  Modelled from the spec: the enumeration \<open>LockPolicy\<close> is declared in a header that
  is not part of the sources. The three enumerators are the case labels of the
  constructors' \<open>switch\<close>; \<open>LOCK_POLICY_OTHER v\<close> stands for any other value \<open>v\<close> the
  variable may hold, which the \<open>switch\<close> sends to its \<open>default\<close> label.
\<close>

datatype LockPolicy =
    LOCK_POLICY_CRITICALSECTION
  | LOCK_POLICY_MUTEX
  | LOCK_POLICY_NONE
  | LOCK_POLICY_OTHER int

text \<open>The three classes derived from \<open>BaseLock\<close> that the constructors instantiate.\<close>

datatype lock_class = CriticalSectionEx | Mutex | NoLock

record SmartObject =
  m_refCount :: int
  m_refCounterLock :: "addr option"
  m_lockPolicy :: LockPolicy

text \<open>The four messages passed to \<open>LOG_THIS_MSG\<close>.\<close>

datatype log_msg = Allocated | Retained | Released | Deleted

datatype event =
    Lock addr
  | Unlock addr
  | Store addr int
  | Log log_msg addr int
  | New_lock addr lock_class
  | Delete_this addr
  | Delete_lock addr

record heap =
  objects :: "addr \<rightharpoonup> SmartObject"
  locks :: "addr \<rightharpoonup> lock_class"
  next_addr :: addr
  trace :: "event list"

definition empty_heap :: heap where
  "empty_heap = \<lparr>objects = Map.empty, locks = Map.empty, next_addr = 0, trace = []\<rparr>"

text \<open>
  \<open>m_refCount\<close> is an \<open>int\<close> of 32 bits. An increment or decrement whose result is not
  representable is a signed overflow, which has no defined behaviour.
\<close>

definition INT_MIN :: int where
  "INT_MIN = - 2147483648"

definition INT_MAX :: int where
  "INT_MAX = 2147483647"

definition representable :: "int \<Rightarrow> bool" where
  "representable n = (INT_MIN \<le> n \<and> n \<le> INT_MAX)"

text \<open>
  An exception carries the count printed into its message: \<open>domain_error\<close> is raised
  with "Reference Count is negative Value! Reference Count : %d", \<open>runtime_error\<close> with
  "The Reference Count is not 0!! Reference Count : %d".
\<close>

datatype exception = domain_error int | runtime_error int

datatype fault = Null_dereference | Use_after_free | Signed_overflow

text \<open>
  A body returns, leaves by an exception (the store is the one at the \<open>throw\<close>), or
  runs into behaviour the language leaves undefined.
\<close>

datatype result = Returns heap | Throws exception heap | Undefined fault

definition then_do :: "result \<Rightarrow> (heap \<Rightarrow> result) \<Rightarrow> result" where
  "then_do r f = (case r of Returns h \<Rightarrow> f h | Throws e h \<Rightarrow> Throws e h | Undefined u \<Rightarrow> Undefined u)"

subsection \<open>Statements\<close>

definition emit :: "event list \<Rightarrow> heap \<Rightarrow> heap" where
  "emit es h = h\<lparr>trace := trace h @ es\<rparr>"

text \<open>\<open>m_refCounterLock->Lock()\<close> and \<open>m_refCounterLock->Unlock()\<close>, through the pointer \<open>p\<close>.\<close>

definition BaseLock_Lock :: "addr option \<Rightarrow> heap \<Rightarrow> result" where
  "BaseLock_Lock p h =
     (case p of
        None \<Rightarrow> Undefined Null_dereference
      | Some l \<Rightarrow>
          (case locks h l of
             None \<Rightarrow> Undefined Use_after_free
           | Some k \<Rightarrow> Returns (emit [Lock l] h)))"

definition BaseLock_Unlock :: "addr option \<Rightarrow> heap \<Rightarrow> result" where
  "BaseLock_Unlock p h =
     (case p of
        None \<Rightarrow> Undefined Null_dereference
      | Some l \<Rightarrow>
          (case locks h l of
             None \<Rightarrow> Undefined Use_after_free
           | Some k \<Rightarrow> Returns (emit [Unlock l] h)))"

text \<open>
  Modelled from the spec: the guard class \<open>LockObj\<close> is declared in a header that is
  not part of the sources. Retain "acquires lock, increments count, releases lock":
  the guard's constructor calls \<open>Lock\<close> and its destructor, at the end of the scope,
  calls \<open>Unlock\<close>.
\<close>

definition LockObj_ctor :: "addr option \<Rightarrow> heap \<Rightarrow> result" where
  "LockObj_ctor p h = BaseLock_Lock p h"

definition LockObj_dtor :: "addr option \<Rightarrow> heap \<Rightarrow> result" where
  "LockObj_dtor p h = BaseLock_Unlock p h"

text \<open>The assignment of \<open>n\<close> to \<open>m_refCount\<close> of the object at \<open>this\<close>.\<close>

definition write_refCount :: "addr \<Rightarrow> int \<Rightarrow> heap \<Rightarrow> result" where
  "write_refCount this n h =
     (case objects h this of
        None \<Rightarrow> Undefined Use_after_free
      | Some obj \<Rightarrow>
          if representable n
          then Returns (emit [Store this n] (h\<lparr>objects := (objects h)(this \<mapsto> obj\<lparr>m_refCount := n\<rparr>)\<rparr>))
          else Undefined Signed_overflow)"

text \<open>
  Modelled from the spec: the macro \<open>LOG_THIS_MSG\<close> is defined in a header that is not
  part of the sources. The diagnostic sink records the event, the object and the
  resulting count, and has no effect on control flow.
\<close>

definition LOG_THIS_MSG :: "log_msg \<Rightarrow> addr \<Rightarrow> int \<Rightarrow> heap \<Rightarrow> heap" where
  "LOG_THIS_MSG m this n h = emit [Log m this n] h"

text \<open>
  Every use of a member in a body reads the object at \<open>this\<close> in the store as it is at
  that statement; a body that runs on storage that holds no object uses freed memory.
\<close>

definition with_object :: "addr \<Rightarrow> heap \<Rightarrow> (SmartObject \<Rightarrow> result) \<Rightarrow> result" where
  "with_object this h f =
     (case objects h this of None \<Rightarrow> Undefined Use_after_free | Some obj \<Rightarrow> f obj)"

text \<open>\<open>m_refCount++\<close> and \<open>m_refCount--\<close>: the stored count is read and written back.\<close>

definition m_refCount_incr :: "addr \<Rightarrow> heap \<Rightarrow> result" where
  "m_refCount_incr this h = with_object this h (\<lambda>obj. write_refCount this (m_refCount obj + 1) h)"

definition m_refCount_decr :: "addr \<Rightarrow> heap \<Rightarrow> result" where
  "m_refCount_decr this h = with_object this h (\<lambda>obj. write_refCount this (m_refCount obj - 1) h)"

text \<open>A log line whose last argument is \<open>this->m_refCount\<close>, read when the line is written.\<close>

definition LOG_refCount :: "log_msg \<Rightarrow> addr \<Rightarrow> heap \<Rightarrow> result" where
  "LOG_refCount m this h =
     with_object this h (\<lambda>obj. Returns (LOG_THIS_MSG m this (m_refCount obj) h))"

text \<open>\<open>m_refCounterLock->Lock()\<close> and \<open>m_refCounterLock->Unlock()\<close> in a body of the class.\<close>

definition this_Lock :: "addr \<Rightarrow> heap \<Rightarrow> result" where
  "this_Lock this h = with_object this h (\<lambda>obj. BaseLock_Lock (m_refCounterLock obj) h)"

definition this_Unlock :: "addr \<Rightarrow> heap \<Rightarrow> result" where
  "this_Unlock this h = with_object this h (\<lambda>obj. BaseLock_Unlock (m_refCounterLock obj) h)"

text \<open>
  Modelled from the spec: the macros \<open>EP_VERIFY_DOMAIN_ERROR_W_MSG\<close> and
  \<open>EP_VERIFY_RUNTIME_ERROR_W_MSG\<close> are defined in epException.h, which is not part of
  the sources. The error-signaling mechanism "raises a distinguishable, catchable
  failure" that carries a message with the offending count: when the expression is
  false the macro throws, and the statements after it are not reached.
\<close>

definition EP_VERIFY_DOMAIN_ERROR_W_MSG :: "bool \<Rightarrow> int \<Rightarrow> heap \<Rightarrow> result" where
  "EP_VERIFY_DOMAIN_ERROR_W_MSG expr n h = (if expr then Returns h else Throws (domain_error n) h)"

definition EP_VERIFY_RUNTIME_ERROR_W_MSG :: "bool \<Rightarrow> int \<Rightarrow> heap \<Rightarrow> result" where
  "EP_VERIFY_RUNTIME_ERROR_W_MSG expr n h = (if expr then Returns h else Throws (runtime_error n) h)"

text \<open>\<open>EP_NEW\<close> of a lock: the allocator hands out the next unused address.\<close>

definition EP_NEW_lock :: "lock_class \<Rightarrow> heap \<Rightarrow> addr option \<times> heap" where
  "EP_NEW_lock k h =
     (Some (next_addr h),
      emit [New_lock (next_addr h) k]
        (h\<lparr>locks := (locks h)(next_addr h \<mapsto> k), next_addr := Suc (next_addr h)\<rparr>))"

text \<open>\<open>EP_DELETE m_refCounterLock\<close>.\<close>

definition EP_DELETE_lock :: "addr \<Rightarrow> heap \<Rightarrow> heap" where
  "EP_DELETE_lock l h = emit [Delete_lock l] (h\<lparr>locks := (locks h)(l := None)\<rparr>)"

subsection \<open>Constructors (lines 133 to 179)\<close>

text \<open>The \<open>switch\<close> over the policy that both constructors contain.\<close>

fun switch_lockPolicy :: "LockPolicy \<Rightarrow> heap \<Rightarrow> addr option \<times> heap" where
  "switch_lockPolicy LOCK_POLICY_CRITICALSECTION h = EP_NEW_lock CriticalSectionEx h"
| "switch_lockPolicy LOCK_POLICY_MUTEX h = EP_NEW_lock Mutex h"
| "switch_lockPolicy LOCK_POLICY_NONE h = EP_NEW_lock NoLock h"
| "switch_lockPolicy (LOCK_POLICY_OTHER v) h = (None, h)"

definition SmartObject_ctor :: "addr \<Rightarrow> LockPolicy \<Rightarrow> heap \<Rightarrow> result" where
  "SmartObject_ctor this lockPolicyType h =
     (let h1 = LOG_THIS_MSG Allocated this 1 (emit [Store this 1] h);
          (lk, h2) = switch_lockPolicy lockPolicyType h1
      in Returns (h2\<lparr>objects := (objects h2)(this \<mapsto>
           \<lparr>m_refCount = 1, m_refCounterLock = lk, m_lockPolicy = lockPolicyType\<rparr>)\<rparr>))"

definition SmartObject_copy_ctor :: "addr \<Rightarrow> addr \<Rightarrow> heap \<Rightarrow> result" where
  "SmartObject_copy_ctor this b h =
     (case objects h b of
        None \<Rightarrow> Undefined Use_after_free
      | Some src \<Rightarrow>
          (let h1 = LOG_THIS_MSG Allocated this 1 (emit [Store this 1] h);
               (lk, h2) = switch_lockPolicy (m_lockPolicy src) h1
           in Returns (h2\<lparr>objects := (objects h2)(this \<mapsto>
                \<lparr>m_refCount = 1, m_refCounterLock = lk, m_lockPolicy = m_lockPolicy src\<rparr>)\<rparr>)))"

text \<open>
  A \<open>new\<close> expression of a class derived from \<open>SmartObject\<close>: the allocator hands out
  the storage, then the constructor runs on it.
\<close>

definition EP_NEW_SmartObject :: "LockPolicy \<Rightarrow> heap \<Rightarrow> addr \<times> result" where
  "EP_NEW_SmartObject lockPolicyType h =
     (next_addr h, SmartObject_ctor (next_addr h) lockPolicyType (h\<lparr>next_addr := Suc (next_addr h)\<rparr>))"

text \<open>A \<open>new\<close> expression that copy-constructs from the object at \<open>b\<close>.\<close>

definition EP_NEW_copy :: "addr \<Rightarrow> heap \<Rightarrow> result" where
  "EP_NEW_copy b h = SmartObject_copy_ctor (next_addr h) b (h\<lparr>next_addr := Suc (next_addr h)\<rparr>)"

subsection \<open>Destructor (lines 184 to 200)\<close>

definition SmartObject_dtor :: "addr \<Rightarrow> heap \<Rightarrow> result" where
  "SmartObject_dtor this h =
     then_do (this_Lock this h) (\<lambda>h1.
     then_do (m_refCount_decr this h1) (\<lambda>h2.
     then_do (LOG_refCount Deleted this h2) (\<lambda>h3.
     then_do (with_object this h3 (\<lambda>obj.
                if m_refCount obj \<noteq> 0
                then EP_VERIFY_RUNTIME_ERROR_W_MSG (m_refCount obj = 0) (m_refCount obj) h3
                else Returns h3)) (\<lambda>h4.
     then_do (this_Unlock this h4) (\<lambda>h5.
     with_object this h5 (\<lambda>obj.
       case m_refCounterLock obj of
         None \<Rightarrow> Returns h5
       | Some l \<Rightarrow> Returns (EP_DELETE_lock l h5)))))))"

text \<open>
  \<open>EP_DELETE this\<close>: the destructor runs, then the storage of the object is given
  back, also when the destructor leaves by an exception.
\<close>

definition EP_DELETE_this :: "addr \<Rightarrow> heap \<Rightarrow> result" where
  "EP_DELETE_this this h =
     (case SmartObject_dtor this (emit [Delete_this this] h) of
        Returns h' \<Rightarrow> Returns (h'\<lparr>objects := (objects h')(this := None)\<rparr>)
      | Throws e h' \<Rightarrow> Throws e (h'\<lparr>objects := (objects h')(this := None)\<rparr>)
      | Undefined u \<Rightarrow> Undefined u)"

subsection \<open>Retain (lines 95 to 100) and Release (lines 106 to 126)\<close>

text \<open>
  In Retain the guard \<open>lock\<close> keeps the pointer it was built with, and releases it
  when the body ends.
\<close>

definition Retain :: "addr \<Rightarrow> heap \<Rightarrow> result" where
  "Retain this h =
     with_object this h (\<lambda>obj.
       then_do (LockObj_ctor (m_refCounterLock obj) h) (\<lambda>h1.
       then_do (m_refCount_incr this h1) (\<lambda>h2.
       then_do (LOG_refCount Retained this h2) (\<lambda>h3.
       LockObj_dtor (m_refCounterLock obj) h3))))"

definition Release :: "addr \<Rightarrow> heap \<Rightarrow> result" where
  "Release this h =
     then_do (this_Lock this h) (\<lambda>h1.
     then_do (m_refCount_decr this h1) (\<lambda>h2.
     then_do (LOG_refCount Released this h2) (\<lambda>h3.
     with_object this h3 (\<lambda>obj.
       if m_refCount obj = 0 then
         then_do (m_refCount_incr this h3) (\<lambda>h4.
         then_do (this_Unlock this h4) (\<lambda>h5.
         EP_DELETE_this this h5))
       else
         then_do (if m_refCount obj < 0
                  then EP_VERIFY_DOMAIN_ERROR_W_MSG (m_refCount obj \<ge> 0) (m_refCount obj) h3
                  else Returns h3) (\<lambda>h4.
         this_Unlock this h4)))))"

text \<open>
  Modelled from the spec: \<open>operator=\<close> is declared on line 58 and defined in a file
  that is not part of the sources. Assign(source) "returns a reference to self"; this
  base contributes no copyable fields, and count and lock of both operands are
  unchanged by the call.
\<close>

definition operator_assign :: "addr \<Rightarrow> addr \<Rightarrow> heap \<Rightarrow> addr \<times> heap" where
  "operator_assign this b h = (this, h)"

subsection \<open>Sequences of calls\<close>

datatype call = Retain_call | Release_call

primrec run :: "call list \<Rightarrow> addr \<Rightarrow> heap \<Rightarrow> result" where
  "run [] this h = Returns h"
| "run (c # cs) this h =
     then_do (case c of Retain_call \<Rightarrow> Retain this h | Release_call \<Rightarrow> Release this h)
       (run cs this)"

text \<open>Construction by \<open>new\<close>, followed by a sequence of calls on the new object.\<close>

definition new_then_run :: "LockPolicy \<Rightarrow> call list \<Rightarrow> heap \<Rightarrow> result" where
  "new_then_run p cs h = (case EP_NEW_SmartObject p h of (this, r) \<Rightarrow> then_do r (run cs this))"

text \<open>
  The number of outstanding owning references after a sequence of calls on a new object:
  the construction reference, plus one for each Retain, minus one for each Release.
\<close>

definition owners :: "call list \<Rightarrow> int" where
  "owners cs = 1 + int (count_list cs Retain_call) - int (count_list cs Release_call)"

text \<open>
  A sequence of calls, on an object whose count is \<open>c\<close>, that never releases the last
  reference and never counts beyond \<open>INT_MAX\<close>.
\<close>

fun stays_shared :: "int \<Rightarrow> call list \<Rightarrow> bool" where
  "stays_shared c [] = True"
| "stays_shared c (Retain_call # cs) = (c + 1 \<le> INT_MAX \<and> stays_shared (c + 1) cs)"
| "stays_shared c (Release_call # cs) = (1 < c \<and> stays_shared (c - 1) cs)"

text \<open>A store that holds one object, with count \<open>c\<close>, and its lock.\<close>

definition example_heap :: "int \<Rightarrow> heap" where
  "example_heap c =
     \<lparr>objects = [0 \<mapsto> \<lparr>m_refCount = c, m_refCounterLock = Some 1,
                      m_lockPolicy = LOCK_POLICY_CRITICALSECTION\<rparr>],
      locks = [1 \<mapsto> CriticalSectionEx], next_addr = 2, trace = []\<rparr>"

text \<open>The allocator's invariant: every address in use lies below \<open>next_addr\<close>.\<close>

definition heap_ok :: "heap \<Rightarrow> bool" where
  "heap_ok h =
     ((\<forall>a obj. objects h a = Some obj \<longrightarrow>
          a < next_addr h \<and> (\<forall>l. m_refCounterLock obj = Some l \<longrightarrow> l < next_addr h))
      \<and> (\<forall>l k. locks h l = Some k \<longrightarrow> l < next_addr h))"

text \<open>The lock class the \<open>switch\<close> instantiates for a recognized policy.\<close>

fun lock_class_of :: "LockPolicy \<Rightarrow> lock_class option" where
  "lock_class_of LOCK_POLICY_CRITICALSECTION = Some CriticalSectionEx"
| "lock_class_of LOCK_POLICY_MUTEX = Some Mutex"
| "lock_class_of LOCK_POLICY_NONE = Some NoLock"
| "lock_class_of (LOCK_POLICY_OTHER v) = None"

section \<open>Basic facts\<close>

lemma then_do_simps:
  "then_do (Returns h) f = f h"
  "then_do (Throws e h) f = Throws e h"
  "then_do (Undefined u) f = Undefined u"
  by (simp_all add: then_do_def)

lemmas stmt_defs = BaseLock_Lock_def BaseLock_Unlock_def LockObj_ctor_def LockObj_dtor_def
  with_object_def m_refCount_incr_def m_refCount_decr_def LOG_refCount_def this_Lock_def
  this_Unlock_def write_refCount_def LOG_THIS_MSG_def EP_VERIFY_DOMAIN_ERROR_W_MSG_def
  EP_VERIFY_RUNTIME_ERROR_W_MSG_def EP_DELETE_lock_def emit_def

lemmas int_defs = representable_def INT_MIN_def INT_MAX_def

subsection \<open>What each body does on a live object whose lock is allocated\<close>

lemma Retain_live:
  assumes "objects h this = Some obj" and "m_refCounterLock obj = Some l" and "locks h l = Some k"
    and "representable (m_refCount obj + 1)"
  shows "Retain this h =
    Returns (h\<lparr>objects := (objects h)(this \<mapsto> obj\<lparr>m_refCount := m_refCount obj + 1\<rparr>),
      trace := trace h @ [Lock l, Store this (m_refCount obj + 1),
        Log Retained this (m_refCount obj + 1), Unlock l]\<rparr>)"
  using assms by (simp add: Retain_def stmt_defs then_do_simps)

lemma Release_shared:
  assumes "objects h this = Some obj" and "m_refCounterLock obj = Some l" and "locks h l = Some k"
    and "1 < m_refCount obj" and "representable (m_refCount obj - 1)"
  shows "Release this h =
    Returns (h\<lparr>objects := (objects h)(this \<mapsto> obj\<lparr>m_refCount := m_refCount obj - 1\<rparr>),
      trace := trace h @ [Lock l, Store this (m_refCount obj - 1),
        Log Released this (m_refCount obj - 1), Unlock l]\<rparr>)"
  using assms by (simp add: Release_def stmt_defs then_do_simps Let_def)

lemma Release_negative:
  assumes "objects h this = Some obj" and "m_refCounterLock obj = Some l" and "locks h l = Some k"
    and "m_refCount obj < 1" and "representable (m_refCount obj - 1)"
  shows "Release this h =
    Throws (domain_error (m_refCount obj - 1))
      (h\<lparr>objects := (objects h)(this \<mapsto> obj\<lparr>m_refCount := m_refCount obj - 1\<rparr>),
        trace := trace h @ [Lock l, Store this (m_refCount obj - 1),
          Log Released this (m_refCount obj - 1)]\<rparr>)"
  using assms by (simp add: Release_def stmt_defs then_do_simps Let_def)

lemma Release_last:
  assumes "objects h this = Some obj" and "m_refCounterLock obj = Some l" and "locks h l = Some k"
    and "m_refCount obj = 1"
  shows "Release this h =
    Returns (h\<lparr>objects := (objects h)(this := None), locks := (locks h)(l := None),
      trace := trace h @ [Lock l, Store this 0, Log Released this 0, Store this 1, Unlock l,
        Delete_this this, Lock l, Store this 0, Log Deleted this 0, Unlock l, Delete_lock l]\<rparr>)"
  using assms
  by (simp add: Release_def EP_DELETE_this_def SmartObject_dtor_def stmt_defs then_do_simps
      Let_def int_defs)

lemma Release_overflow:
  assumes "objects h this = Some obj" and "m_refCounterLock obj = Some l" and "locks h l = Some k"
    and "\<not> representable (m_refCount obj - 1)"
  shows "Release this h = Undefined Signed_overflow"
  using assms by (simp add: Release_def stmt_defs then_do_simps)

lemma Release_dead: "objects h this = None \<Longrightarrow> Release this h = Undefined Use_after_free"
  by (simp add: Release_def this_Lock_def with_object_def then_do_simps)

lemma Retain_dead: "objects h this = None \<Longrightarrow> Retain this h = Undefined Use_after_free"
  by (simp add: Retain_def with_object_def)

lemma dtor_last:
  assumes "objects h this = Some obj" and "m_refCounterLock obj = Some l" and "locks h l = Some k"
    and "m_refCount obj = 1"
  shows "SmartObject_dtor this h =
    Returns (h\<lparr>objects := (objects h)(this \<mapsto> obj\<lparr>m_refCount := 0\<rparr>),
      locks := (locks h)(l := None),
      trace := trace h @ [Lock l, Store this 0, Log Deleted this 0, Unlock l, Delete_lock l]\<rparr>)"
  using assms by (simp add: SmartObject_dtor_def stmt_defs then_do_simps Let_def int_defs)

lemma dtor_nonzero:
  assumes "objects h this = Some obj" and "m_refCounterLock obj = Some l" and "locks h l = Some k"
    and "m_refCount obj \<noteq> 1" and "representable (m_refCount obj - 1)"
  shows "SmartObject_dtor this h =
    Throws (runtime_error (m_refCount obj - 1))
      (h\<lparr>objects := (objects h)(this \<mapsto> obj\<lparr>m_refCount := m_refCount obj - 1\<rparr>),
        trace := trace h @ [Lock l, Store this (m_refCount obj - 1),
          Log Deleted this (m_refCount obj - 1)]\<rparr>)"
  using assms by (simp add: SmartObject_dtor_def stmt_defs then_do_simps Let_def)

lemma Release_before_delete:
  assumes "objects h this = Some obj" and "m_refCounterLock obj = Some l" and "locks h l = Some k"
    and "m_refCount obj = 1"
  shows "Release this h = EP_DELETE_this this
     (h\<lparr>objects := (objects h)(this \<mapsto> obj\<lparr>m_refCount := 1\<rparr>),
        trace := trace h @ [Lock l, Store this 0, Log Released this 0, Store this 1, Unlock l]\<rparr>)"
  using assms by (simp add: Release_def stmt_defs then_do_simps Let_def int_defs)

lemma Retain_overflow:
  assumes "objects h this = Some obj" and "m_refCounterLock obj = Some l" and "locks h l = Some k"
    and "\<not> representable (m_refCount obj + 1)"
  shows "Retain this h = Undefined Signed_overflow"
  using assms by (simp add: Retain_def stmt_defs then_do_simps)

lemma Retain_null:
  "objects h this = Some obj \<Longrightarrow> m_refCounterLock obj = None \<Longrightarrow>
     Retain this h = Undefined Null_dereference"
  by (simp add: Retain_def stmt_defs then_do_simps)

lemma Release_null:
  "objects h this = Some obj \<Longrightarrow> m_refCounterLock obj = None \<Longrightarrow>
     Release this h = Undefined Null_dereference"
  by (simp add: Release_def stmt_defs then_do_simps)

subsection \<open>What the constructors do\<close>

lemma switch_lockPolicy_recognized:
  "lock_class_of p = Some k \<Longrightarrow>
     switch_lockPolicy p h =
       (Some (next_addr h),
        h\<lparr>locks := (locks h)(next_addr h \<mapsto> k), next_addr := Suc (next_addr h),
          trace := trace h @ [New_lock (next_addr h) k]\<rparr>)"
  by (cases p) (simp_all add: EP_NEW_lock_def emit_def)

lemma switch_lockPolicy_other:
  "lock_class_of p = None \<Longrightarrow> switch_lockPolicy p h = (None, h)"
  by (cases p) simp_all

lemma ctor_recognized:
  "lock_class_of p = Some k \<Longrightarrow>
     SmartObject_ctor this p h =
       Returns (h\<lparr>objects := (objects h)(this \<mapsto>
                    \<lparr>m_refCount = 1, m_refCounterLock = Some (next_addr h), m_lockPolicy = p\<rparr>),
                  locks := (locks h)(next_addr h \<mapsto> k), next_addr := Suc (next_addr h),
                  trace := trace h @ [Store this 1, Log Allocated this 1, New_lock (next_addr h) k]\<rparr>)"
  by (simp add: SmartObject_ctor_def switch_lockPolicy_recognized LOG_THIS_MSG_def emit_def)

lemma ctor_other:
  "lock_class_of p = None \<Longrightarrow>
     SmartObject_ctor this p h =
       Returns (h\<lparr>objects := (objects h)(this \<mapsto>
                    \<lparr>m_refCount = 1, m_refCounterLock = None, m_lockPolicy = p\<rparr>),
                  trace := trace h @ [Store this 1, Log Allocated this 1]\<rparr>)"
  by (simp add: SmartObject_ctor_def switch_lockPolicy_other LOG_THIS_MSG_def emit_def)

lemma copy_ctor_recognized:
  "objects h b = Some src \<Longrightarrow> lock_class_of (m_lockPolicy src) = Some k \<Longrightarrow>
     SmartObject_copy_ctor this b h =
       Returns (h\<lparr>objects := (objects h)(this \<mapsto>
                    \<lparr>m_refCount = 1, m_refCounterLock = Some (next_addr h),
                     m_lockPolicy = m_lockPolicy src\<rparr>),
                  locks := (locks h)(next_addr h \<mapsto> k), next_addr := Suc (next_addr h),
                  trace := trace h @ [Store this 1, Log Allocated this 1, New_lock (next_addr h) k]\<rparr>)"
  by (simp add: SmartObject_copy_ctor_def switch_lockPolicy_recognized LOG_THIS_MSG_def emit_def)

subsection \<open>The fields that Retain and Release leave alone\<close>

lemma Retain_fields:
  assumes "objects h this = Some obj" and "Retain this h = Returns h' \<or> Retain this h = Throws e h'"
  shows "\<exists>n. objects h' this = Some (obj\<lparr>m_refCount := n\<rparr>)"
  using assms
  by (auto simp: Retain_def stmt_defs then_do_def split: option.splits if_splits)

lemma Release_fields:
  assumes "objects h this = Some obj" and "Release this h = Returns h' \<or> Release this h = Throws e h'"
  shows "objects h' this = None \<or> (\<exists>n. objects h' this = Some (obj\<lparr>m_refCount := n\<rparr>))"
proof (cases "\<exists>l k. m_refCounterLock obj = Some l \<and> locks h l = Some k")
  case False
  with assms show ?thesis
    by (auto simp: Release_def stmt_defs then_do_def split: option.splits)
next
  case True
  then obtain l k where lk: "m_refCounterLock obj = Some l" "locks h l = Some k" by blast
  consider "\<not> representable (m_refCount obj - 1)" | "m_refCount obj = 1"
    | "1 < m_refCount obj" "representable (m_refCount obj - 1)"
    | "m_refCount obj < 1" "representable (m_refCount obj - 1)"
    by linarith
  then show ?thesis
  proof cases
    case 1
    with assms lk show ?thesis by (simp add: Release_overflow)
  next
    case 2
    with assms lk show ?thesis by (auto simp: Release_last)
  next
    case 3
    with assms lk show ?thesis by (auto simp: Release_shared)
  next
    case 4
    with assms lk show ?thesis by (auto simp: Release_negative)
  qed
qed

lemma Release_throws_only_negative:
  assumes "Release a g = Throws e g'"
  shows "\<exists>obj. objects g a = Some obj \<and> m_refCount obj < 1 \<and> e = domain_error (m_refCount obj - 1)"
proof (cases "objects g a")
  case None
  with assms show ?thesis by (simp add: Release_dead)
next
  case (Some obj)
  show ?thesis
  proof (cases "\<exists>l k. m_refCounterLock obj = Some l \<and> locks g l = Some k")
    case False
    with assms Some show ?thesis
      by (auto simp: Release_def stmt_defs then_do_def split: option.splits)
  next
    case True
    then obtain l k where lk: "m_refCounterLock obj = Some l" "locks g l = Some k" by blast
    consider "\<not> representable (m_refCount obj - 1)" | "m_refCount obj = 1"
      | "1 < m_refCount obj" "representable (m_refCount obj - 1)"
      | "m_refCount obj < 1" "representable (m_refCount obj - 1)"
      by linarith
    then show ?thesis
    proof cases
      case 1
      with assms Some lk show ?thesis by (simp add: Release_overflow)
    next
      case 2
      with assms Some lk show ?thesis by (simp add: Release_last)
    next
      case 3
      with assms Some lk show ?thesis by (simp add: Release_shared)
    next
      case 4
      with assms Some lk show ?thesis by (simp add: Release_negative)
    qed
  qed
qed

subsection \<open>Sequences of calls\<close>

lemma run_append: "run (xs @ ys) this h = then_do (run xs this h) (run ys this)"
  by (induction xs arbitrary: h) (auto simp: then_do_def split: result.splits call.splits)

lemma run_dead:
  "objects h this = None \<Longrightarrow> cs \<noteq> [] \<Longrightarrow> run cs this h = Undefined Use_after_free"
  by (cases cs) (auto simp: Release_dead Retain_dead then_do_simps split: call.splits)

lemma run_null:
  "objects h this = Some obj \<Longrightarrow> m_refCounterLock obj = None \<Longrightarrow> cs \<noteq> [] \<Longrightarrow>
     run cs this h = Undefined Null_dereference"
  by (cases cs) (auto simp: Release_null Retain_null then_do_simps split: call.splits)

lemma owners_simps:
  "owners [] = 1"
  "owners (Retain_call # cs) = owners cs + 1"
  "owners (Release_call # cs) = owners cs - 1"
  by (simp_all add: owners_def)

lemma owners_append: "owners (xs @ ys) = owners xs + owners ys - 1"
  by (simp add: owners_def)

lemma owners_replicate:
  "owners (replicate n Retain_call) = 1 + int n"
  "owners (replicate n Release_call) = 1 - int n"
  by (induction n) (simp_all add: owners_simps)

lemma new_recognized:
  "lock_class_of p = Some k \<Longrightarrow>
     new_then_run p cs h =
       run cs (next_addr h)
         (h\<lparr>objects := (objects h)(next_addr h \<mapsto>
                \<lparr>m_refCount = 1, m_refCounterLock = Some (Suc (next_addr h)), m_lockPolicy = p\<rparr>),
            locks := (locks h)(Suc (next_addr h) \<mapsto> k),
            next_addr := Suc (Suc (next_addr h)),
            trace := trace h @ [Store (next_addr h) 1, Log Allocated (next_addr h) 1,
              New_lock (Suc (next_addr h)) k]\<rparr>)"
  by (simp add: new_then_run_def EP_NEW_SmartObject_def ctor_recognized then_do_simps)

lemma new_other:
  "lock_class_of p = None \<Longrightarrow>
     new_then_run p cs h =
       run cs (next_addr h)
         (h\<lparr>next_addr := Suc (next_addr h),
            objects := (objects h)(next_addr h \<mapsto>
                \<lparr>m_refCount = 1, m_refCounterLock = None, m_lockPolicy = p\<rparr>),
            trace := trace h @ [Store (next_addr h) 1, Log Allocated (next_addr h) 1]\<rparr>)"
  by (simp add: new_then_run_def EP_NEW_SmartObject_def ctor_other then_do_simps)

lemma new_then_run_append:
  "lock_class_of p = Some k \<Longrightarrow>
     new_then_run p (xs @ ys) h = then_do (new_then_run p xs h) (run ys (next_addr h))"
  by (simp add: new_recognized run_append)

text \<open>
  A sequence that never releases the last reference and never counts beyond \<open>INT_MAX\<close>
  returns, with the object in the store and its count moved by the net number of calls.
\<close>

lemma run_stays_shared:
  assumes "stays_shared (m_refCount obj) cs" and "objects h this = Some obj"
    and "m_refCounterLock obj = Some l" and "locks h l = Some k"
    and "1 \<le> m_refCount obj" and "m_refCount obj \<le> INT_MAX"
  shows "\<exists>h' es. run cs this h = Returns h' \<and>
     objects h' = (objects h)(this \<mapsto> obj\<lparr>m_refCount := m_refCount obj + owners cs - 1\<rparr>) \<and>
     locks h' = locks h \<and> next_addr h' = next_addr h \<and>
     trace h' = trace h @ es \<and> Delete_this this \<notin> set es"
  using assms
proof (induction cs arbitrary: h obj)
  case Nil
  then have "objects h = (objects h)(this \<mapsto> obj\<lparr>m_refCount := m_refCount obj + owners [] - 1\<rparr>)"
    by (simp add: owners_simps fun_eq_iff)
  then show ?case by simp
next
  case (Cons x cs)
  show ?case
  proof (cases x)
    case Retain_call
    let ?obj1 = "obj\<lparr>m_refCount := m_refCount obj + 1\<rparr>"
    let ?h1 = "h\<lparr>objects := (objects h)(this \<mapsto> ?obj1),
      trace := trace h @ [Lock l, Store this (m_refCount obj + 1),
        Log Retained this (m_refCount obj + 1), Unlock l]\<rparr>"
    from Cons.prems Retain_call have ss: "m_refCount obj + 1 \<le> INT_MAX" "stays_shared (m_refCount ?obj1) cs"
      by simp_all
    with Cons.prems have "representable (m_refCount obj + 1)"
      by (simp add: int_defs)
    with Cons.prems have step: "Retain this h = Returns ?h1"
      by (simp add: Retain_live)
    have "\<exists>h' es. run cs this ?h1 = Returns h' \<and>
       objects h' = (objects ?h1)(this \<mapsto> ?obj1\<lparr>m_refCount := m_refCount ?obj1 + owners cs - 1\<rparr>) \<and>
       locks h' = locks ?h1 \<and> next_addr h' = next_addr ?h1 \<and>
       trace h' = trace ?h1 @ es \<and> Delete_this this \<notin> set es"
      using ss Cons.prems by (intro Cons.IH) simp_all
    then obtain h' es where "run cs this ?h1 = Returns h'"
      "objects h' = (objects ?h1)(this \<mapsto> ?obj1\<lparr>m_refCount := m_refCount ?obj1 + owners cs - 1\<rparr>)"
      "locks h' = locks ?h1" "next_addr h' = next_addr ?h1"
      "trace h' = trace ?h1 @ es" "Delete_this this \<notin> set es"
      by blast
    with step Retain_call show ?thesis
      by (intro exI [of _ h'] exI [of _ "[Lock l, Store this (m_refCount obj + 1),
        Log Retained this (m_refCount obj + 1), Unlock l] @ es"])
        (simp add: then_do_simps owners_simps)
  next
    case Release_call
    let ?obj1 = "obj\<lparr>m_refCount := m_refCount obj - 1\<rparr>"
    let ?h1 = "h\<lparr>objects := (objects h)(this \<mapsto> ?obj1),
      trace := trace h @ [Lock l, Store this (m_refCount obj - 1),
        Log Released this (m_refCount obj - 1), Unlock l]\<rparr>"
    from Cons.prems Release_call have ss: "1 < m_refCount obj" "stays_shared (m_refCount ?obj1) cs"
      by simp_all
    with Cons.prems have "representable (m_refCount obj - 1)"
      by (simp add: int_defs)
    with Cons.prems ss have step: "Release this h = Returns ?h1"
      by (simp add: Release_shared)
    have "\<exists>h' es. run cs this ?h1 = Returns h' \<and>
       objects h' = (objects ?h1)(this \<mapsto> ?obj1\<lparr>m_refCount := m_refCount ?obj1 + owners cs - 1\<rparr>) \<and>
       locks h' = locks ?h1 \<and> next_addr h' = next_addr ?h1 \<and>
       trace h' = trace ?h1 @ es \<and> Delete_this this \<notin> set es"
      using ss Cons.prems by (intro Cons.IH) simp_all
    then obtain h' es where "run cs this ?h1 = Returns h'"
      "objects h' = (objects ?h1)(this \<mapsto> ?obj1\<lparr>m_refCount := m_refCount ?obj1 + owners cs - 1\<rparr>)"
      "locks h' = locks ?h1" "next_addr h' = next_addr ?h1"
      "trace h' = trace ?h1 @ es" "Delete_this this \<notin> set es"
      by blast
    with step Release_call show ?thesis
      by (intro exI [of _ h'] exI [of _ "[Lock l, Store this (m_refCount obj - 1),
        Log Released this (m_refCount obj - 1), Unlock l] @ es"])
        (simp add: then_do_simps owners_simps)
  qed
qed

text \<open>
  Whenever a sequence of calls returns, every value written to the count was at least 0,
  and an object still in the store has the count its calls add up to.
\<close>

lemma run_counts:
  assumes "run cs this h = Returns h'" and "objects h this = Some obj"
    and "m_refCounterLock obj = Some l" and "locks h l = Some k"
    and "1 \<le> m_refCount obj"
  shows "(\<exists>es. trace h' = trace h @ es \<and> (\<forall>n. Store this n \<in> set es \<longrightarrow> 0 \<le> n)) \<and>
     (\<forall>obj'. objects h' this = Some obj' \<longrightarrow>
        m_refCount obj' = m_refCount obj + owners cs - 1 \<and> 1 \<le> m_refCount obj')"
  using assms
proof (induction cs arbitrary: h obj)
  case Nil
  then show ?case by (simp add: owners_simps)
next
  case (Cons x cs)
  show ?case
  proof (cases x)
    case Retain_call
    let ?obj1 = "obj\<lparr>m_refCount := m_refCount obj + 1\<rparr>"
    let ?h1 = "h\<lparr>objects := (objects h)(this \<mapsto> ?obj1),
      trace := trace h @ [Lock l, Store this (m_refCount obj + 1),
        Log Retained this (m_refCount obj + 1), Unlock l]\<rparr>"
    have rep: "representable (m_refCount obj + 1)"
    proof (rule ccontr)
      assume "\<not> representable (m_refCount obj + 1)"
      with Cons.prems have "Retain this h = Undefined Signed_overflow"
        by (simp add: Retain_overflow)
      with Cons.prems(1) Retain_call show False
        by (simp add: then_do_simps)
    qed
    with Cons.prems have step: "Retain this h = Returns ?h1"
      by (simp add: Retain_live)
    with Cons.prems(1) Retain_call have rest: "run cs this ?h1 = Returns h'"
      by (simp add: then_do_simps)
    have "(\<exists>es. trace h' = trace ?h1 @ es \<and> (\<forall>n. Store this n \<in> set es \<longrightarrow> 0 \<le> n)) \<and>
      (\<forall>obj'. objects h' this = Some obj' \<longrightarrow>
        m_refCount obj' = m_refCount ?obj1 + owners cs - 1 \<and> 1 \<le> m_refCount obj')"
      using rest Cons.prems by (intro Cons.IH) simp_all
    then obtain es where es: "trace h' = trace ?h1 @ es" "\<forall>n. Store this n \<in> set es \<longrightarrow> 0 \<le> n"
      and cnt: "\<forall>obj'. objects h' this = Some obj' \<longrightarrow>
        m_refCount obj' = m_refCount ?obj1 + owners cs - 1 \<and> 1 \<le> m_refCount obj'"
      by blast
    have "trace h' = trace h @ ([Lock l, Store this (m_refCount obj + 1),
        Log Retained this (m_refCount obj + 1), Unlock l] @ es) \<and>
      (\<forall>n. Store this n \<in> set ([Lock l, Store this (m_refCount obj + 1),
        Log Retained this (m_refCount obj + 1), Unlock l] @ es) \<longrightarrow> 0 \<le> n)"
      using es Cons.prems(5) by simp
    then have "\<exists>es. trace h' = trace h @ es \<and> (\<forall>n. Store this n \<in> set es \<longrightarrow> 0 \<le> n)"
      by (rule exI)
    moreover have "\<forall>obj'. objects h' this = Some obj' \<longrightarrow>
        m_refCount obj' = m_refCount obj + owners (Retain_call # cs) - 1 \<and> 1 \<le> m_refCount obj'"
    proof (intro allI impI)
      fix obj'
      assume "objects h' this = Some obj'"
      with cnt have "m_refCount obj' = m_refCount ?obj1 + owners cs - 1 \<and> 1 \<le> m_refCount obj'"
        by blast
      then show "m_refCount obj' = m_refCount obj + owners (Retain_call # cs) - 1 \<and> 1 \<le> m_refCount obj'"
        by (simp add: owners_simps)
    qed
    ultimately show ?thesis
      unfolding Retain_call by (rule conjI)
  next
    case Release_call
    show ?thesis
    proof (cases "m_refCount obj = 1")
      case True
      let ?h1 = "h\<lparr>objects := (objects h)(this := None), locks := (locks h)(l := None),
        trace := trace h @ [Lock l, Store this 0, Log Released this 0, Store this 1, Unlock l,
          Delete_this this, Lock l, Store this 0, Log Deleted this 0, Unlock l, Delete_lock l]\<rparr>"
      from True Cons.prems have step: "Release this h = Returns ?h1"
        by (simp add: Release_last)
      with Cons.prems(1) Release_call have rest: "run cs this ?h1 = Returns h'"
        by (simp add: then_do_simps)
      have "cs = []"
      proof (rule ccontr)
        assume "cs \<noteq> []"
        then have "run cs this ?h1 = Undefined Use_after_free"
          by (intro run_dead) simp_all
        with rest show False by simp
      qed
      with rest have h': "h' = ?h1" by simp
      have "trace ?h1 = trace h @ [Lock l, Store this 0, Log Released this 0, Store this 1, Unlock l,
          Delete_this this, Lock l, Store this 0, Log Deleted this 0, Unlock l, Delete_lock l] \<and>
        (\<forall>n. Store this n \<in> set [Lock l, Store this 0, Log Released this 0, Store this 1, Unlock l,
          Delete_this this, Lock l, Store this 0, Log Deleted this 0, Unlock l, Delete_lock l] \<longrightarrow> 0 \<le> n)"
        by auto
      then have "\<exists>es. trace ?h1 = trace h @ es \<and> (\<forall>n. Store this n \<in> set es \<longrightarrow> 0 \<le> n)"
        by (rule exI)
      with h' show ?thesis by simp
    next
      case False
      with Cons.prems have gt: "1 < m_refCount obj" by simp
      let ?obj1 = "obj\<lparr>m_refCount := m_refCount obj - 1\<rparr>"
      let ?h1 = "h\<lparr>objects := (objects h)(this \<mapsto> ?obj1),
        trace := trace h @ [Lock l, Store this (m_refCount obj - 1),
          Log Released this (m_refCount obj - 1), Unlock l]\<rparr>"
      have rep: "representable (m_refCount obj - 1)"
      proof (rule ccontr)
        assume "\<not> representable (m_refCount obj - 1)"
        with Cons.prems have "Release this h = Undefined Signed_overflow"
          by (simp add: Release_overflow)
        with Cons.prems(1) Release_call show False
          by (simp add: then_do_simps)
      qed
      with Cons.prems gt have step: "Release this h = Returns ?h1"
        by (simp add: Release_shared)
      with Cons.prems(1) Release_call have rest: "run cs this ?h1 = Returns h'"
        by (simp add: then_do_simps)
      have "(\<exists>es. trace h' = trace ?h1 @ es \<and> (\<forall>n. Store this n \<in> set es \<longrightarrow> 0 \<le> n)) \<and>
        (\<forall>obj'. objects h' this = Some obj' \<longrightarrow>
          m_refCount obj' = m_refCount ?obj1 + owners cs - 1 \<and> 1 \<le> m_refCount obj')"
        using rest Cons.prems gt by (intro Cons.IH) simp_all
      then obtain es where es: "trace h' = trace ?h1 @ es" "\<forall>n. Store this n \<in> set es \<longrightarrow> 0 \<le> n"
        and cnt: "\<forall>obj'. objects h' this = Some obj' \<longrightarrow>
          m_refCount obj' = m_refCount ?obj1 + owners cs - 1 \<and> 1 \<le> m_refCount obj'"
        by blast
      have "trace h' = trace h @ ([Lock l, Store this (m_refCount obj - 1),
          Log Released this (m_refCount obj - 1), Unlock l] @ es) \<and>
        (\<forall>n. Store this n \<in> set ([Lock l, Store this (m_refCount obj - 1),
          Log Released this (m_refCount obj - 1), Unlock l] @ es) \<longrightarrow> 0 \<le> n)"
        using es gt by simp
      then have "\<exists>es. trace h' = trace h @ es \<and> (\<forall>n. Store this n \<in> set es \<longrightarrow> 0 \<le> n)"
        by (rule exI)
      moreover have "\<forall>obj'. objects h' this = Some obj' \<longrightarrow>
          m_refCount obj' = m_refCount obj + owners (Release_call # cs) - 1 \<and> 1 \<le> m_refCount obj'"
      proof (intro allI impI)
        fix obj'
        assume "objects h' this = Some obj'"
        with cnt have "m_refCount obj' = m_refCount ?obj1 + owners cs - 1 \<and> 1 \<le> m_refCount obj'"
          by blast
        then show "m_refCount obj' = m_refCount obj + owners (Release_call # cs) - 1 \<and> 1 \<le> m_refCount obj'"
          by (simp add: owners_simps)
      qed
      ultimately show ?thesis
        unfolding Release_call by (rule conjI)
    qed
  qed
qed

lemma stays_shared_Retains:
  "c + int n \<le> INT_MAX \<Longrightarrow> stays_shared (c + int n) ys \<Longrightarrow>
     stays_shared c (replicate n Retain_call @ ys)"
proof (induction n arbitrary: c)
  case 0
  then show ?case by simp
next
  case (Suc n)
  then have "stays_shared (c + 1) (replicate n Retain_call @ ys)"
    by (intro Suc.IH) (simp_all add: add.assoc)
  with Suc.prems show ?case by simp
qed

lemma stays_shared_Releases:
  "int n < c \<Longrightarrow> stays_shared c (replicate n Release_call)"
proof (induction n arbitrary: c)
  case 0
  then show ?case by simp
next
  case (Suc n)
  then have "stays_shared (c - 1) (replicate n Release_call)"
    by (intro Suc.IH) simp
  with Suc.prems show ?case by simp
qed

lemma stays_shared_balanced:
  "int n < INT_MAX \<Longrightarrow> stays_shared 1 (replicate n Retain_call @ replicate n Release_call)"
  by (intro stays_shared_Retains stays_shared_Releases) simp_all

lemma owners_balanced: "owners (replicate n Retain_call @ replicate n Release_call) = 1"
  by (simp add: owners_append owners_replicate)

lemma balanced_run:
  assumes "lock_class_of p = Some k" and "int n < INT_MAX"
  shows "\<exists>h' es. new_then_run p (replicate n Retain_call @ replicate n Release_call) h = Returns h' \<and>
     objects h' = (objects h)(next_addr h \<mapsto>
        \<lparr>m_refCount = 1, m_refCounterLock = Some (Suc (next_addr h)), m_lockPolicy = p\<rparr>) \<and>
     locks h' = (locks h)(Suc (next_addr h) \<mapsto> k) \<and>
     trace h' = trace h @ es \<and> Delete_this (next_addr h) \<notin> set es"
proof -
  let ?a = "next_addr h"
  let ?obj = "\<lparr>m_refCount = 1, m_refCounterLock = Some (Suc ?a), m_lockPolicy = p\<rparr>"
  let ?h0 = "h\<lparr>objects := (objects h)(?a \<mapsto> ?obj),
            locks := (locks h)(Suc ?a \<mapsto> k),
            next_addr := Suc (Suc ?a),
            trace := trace h @ [Store ?a 1, Log Allocated ?a 1, New_lock (Suc ?a) k]\<rparr>"
  let ?cs = "replicate n Retain_call @ replicate n Release_call"
  have "\<exists>h' es. run ?cs ?a ?h0 = Returns h' \<and>
     objects h' = (objects ?h0)(?a \<mapsto> ?obj\<lparr>m_refCount := m_refCount ?obj + owners ?cs - 1\<rparr>) \<and>
     locks h' = locks ?h0 \<and> next_addr h' = next_addr ?h0 \<and>
     trace h' = trace ?h0 @ es \<and> Delete_this ?a \<notin> set es"
    using assms(2) by (intro run_stays_shared [where l = "Suc ?a" and k = k])
      (simp_all add: stays_shared_balanced INT_MAX_def)
  then obtain h' es where r: "run ?cs ?a ?h0 = Returns h'"
    and o: "objects h' = (objects ?h0)(?a \<mapsto> ?obj\<lparr>m_refCount := m_refCount ?obj + owners ?cs - 1\<rparr>)"
    and l: "locks h' = locks ?h0"
    and t: "trace h' = trace ?h0 @ es" "Delete_this ?a \<notin> set es"
    by blast
  have "new_then_run p ?cs h = Returns h'"
    using r assms(1) by (simp add: new_recognized)
  moreover have "objects h' = (objects h)(?a \<mapsto> ?obj)"
    using o by (simp add: owners_balanced)
  moreover have "locks h' = (locks h)(Suc ?a \<mapsto> k)"
    using l by simp
  moreover have "trace h' = trace h @ ([Store ?a 1, Log Allocated ?a 1, New_lock (Suc ?a) k] @ es)"
    using t by simp
  moreover have "Delete_this ?a \<notin> set ([Store ?a 1, Log Allocated ?a 1, New_lock (Suc ?a) k] @ es)"
    using t by simp
  ultimately show ?thesis by blast
qed

lemma Retains_overflow:
  assumes "lock_class_of p = Some k" and "int n = INT_MAX"
  shows "new_then_run p (replicate n Retain_call @ ys) h = Undefined Signed_overflow"
proof -
  from assms(2) obtain m where n: "n = Suc m" and m: "int m = INT_MAX - 1"
    by (cases n) (simp_all add: INT_MAX_def)
  let ?a = "next_addr h"
  let ?obj = "\<lparr>m_refCount = 1, m_refCounterLock = Some (Suc ?a), m_lockPolicy = p\<rparr>"
  let ?h0 = "h\<lparr>objects := (objects h)(?a \<mapsto> ?obj),
            locks := (locks h)(Suc ?a \<mapsto> k),
            next_addr := Suc (Suc ?a),
            trace := trace h @ [Store ?a 1, Log Allocated ?a 1, New_lock (Suc ?a) k]\<rparr>"
  let ?cs = "replicate m Retain_call"
  have ss: "stays_shared 1 ?cs"
    using stays_shared_Retains [of 1 m "[]"] m by simp
  have "\<exists>h' es. run ?cs ?a ?h0 = Returns h' \<and>
     objects h' = (objects ?h0)(?a \<mapsto> ?obj\<lparr>m_refCount := m_refCount ?obj + owners ?cs - 1\<rparr>) \<and>
     locks h' = locks ?h0 \<and> next_addr h' = next_addr ?h0 \<and>
     trace h' = trace ?h0 @ es \<and> Delete_this ?a \<notin> set es"
    using ss by (intro run_stays_shared [where l = "Suc ?a" and k = k]) (simp_all add: INT_MAX_def)
  then obtain h' where r: "run ?cs ?a ?h0 = Returns h'"
    and o: "objects h' = (objects ?h0)(?a \<mapsto> ?obj\<lparr>m_refCount := m_refCount ?obj + owners ?cs - 1\<rparr>)"
    and l: "locks h' = locks ?h0"
    by blast
  from o m have o': "objects h' ?a = Some (?obj\<lparr>m_refCount := INT_MAX\<rparr>)"
    by (simp add: owners_replicate)
  have "Retain ?a h' = Undefined Signed_overflow"
    using o' by (rule Retain_overflow [where l = "Suc ?a" and k = k]) (simp_all add: l int_defs)
  then have "run (Retain_call # ys) ?a h' = Undefined Signed_overflow"
    by (simp add: then_do_simps)
  with r have "run (?cs @ Retain_call # ys) ?a ?h0 = Undefined Signed_overflow"
    by (simp add: run_append then_do_simps)
  moreover have "replicate n Retain_call @ ys = ?cs @ Retain_call # ys"
    unfolding n by (simp add: replicate_app_Cons_same)
  ultimately show ?thesis
    using assms(1) by (simp add: new_recognized)
qed







lemma stays_shared_take: "stays_shared c cs \<Longrightarrow> stays_shared c (take i cs)"
proof (induction c cs arbitrary: i rule: stays_shared.induct)
  case (1 c)
  then show ?case by simp
next
  case (2 c cs)
  then show ?case by (cases i) simp_all
next
  case (3 c cs)
  then show ?case by (cases i) simp_all
qed

lemma Retains_overflow_only:
  assumes "lock_class_of p = Some k" and "int n = INT_MAX"
  shows "new_then_run p (replicate n Retain_call) h = Undefined Signed_overflow"
  using Retains_overflow [OF assms, of "[]" h] by (simp only: append_Nil2)

section \<open>The claims\<close>

text \<open>
  C1, as stated, fails for a live object with count 1 that was constructed with a
  value outside the three policies: its lock pointer is null, and Release, which
  starts with \<open>m_refCounterLock->Lock()\<close>, has no defined behaviour on it. It
  decrements nothing and destroys nothing.
\<close>

theorem Release_on_null_lock:
  "new_then_run (LOCK_POLICY_OTHER 3) [] empty_heap =
     Returns \<lparr>objects = [0 \<mapsto> \<lparr>m_refCount = 1, m_refCounterLock = None,
                              m_lockPolicy = LOCK_POLICY_OTHER 3\<rparr>],
              locks = Map.empty, next_addr = 1,
              trace = [Store 0 1, Log Allocated 0 1]\<rparr>
   \<and> new_then_run (LOCK_POLICY_OTHER 3) [Release_call] empty_heap = Undefined Null_dereference"
  by (simp add: new_other empty_heap_def Release_def stmt_defs then_do_simps)

text \<open>
  C1, amended. Take a live object whose lock pointer refers to an allocated lock.
  When its count is 1, Release returns the store in which the object and its lock are
  gone, and the effects of the call are, in this order: the lock is taken, the count
  is written as 0 and logged as 0, the dummy increment writes 1, the lock is
  released, and only then \<open>delete this\<close> runs, once (the destructor takes the lock,
  writes and logs 0, releases the lock and deletes it). A Release after that finds no
  object: it uses freed memory. When the count is above 1, Release returns with the
  object in the store, its stored count one less, and no \<open>delete this\<close>. When the count
  is below 1, Release throws, the object stays with the decremented count, and no
  \<open>delete this\<close> runs. When the decrement itself overflows nothing is defined.
\<close>

theorem Release_destroys_at_last_reference:
  assumes "objects h this = Some obj" and "m_refCounterLock obj = Some l" and "locks h l = Some k"
  shows "(m_refCount obj = 1 \<longrightarrow>
            Release this h =
              Returns (h\<lparr>objects := (objects h)(this := None), locks := (locks h)(l := None),
                trace := trace h @
                  [Lock l, Store this 0, Log Released this 0, Store this 1, Unlock l,
                   Delete_this this,
                   Lock l, Store this 0, Log Deleted this 0, Unlock l, Delete_lock l]\<rparr>) \<and>
            Release this
              (h\<lparr>objects := (objects h)(this := None), locks := (locks h)(l := None),
                trace := trace h @
                  [Lock l, Store this 0, Log Released this 0, Store this 1, Unlock l,
                   Delete_this this,
                   Lock l, Store this 0, Log Deleted this 0, Unlock l, Delete_lock l]\<rparr>)
              = Undefined Use_after_free)
       \<and> (1 < m_refCount obj \<and> representable (m_refCount obj - 1) \<longrightarrow>
            Release this h =
              Returns (h\<lparr>objects := (objects h)(this \<mapsto> obj\<lparr>m_refCount := m_refCount obj - 1\<rparr>),
                trace := trace h @ [Lock l, Store this (m_refCount obj - 1),
                  Log Released this (m_refCount obj - 1), Unlock l]\<rparr>))
       \<and> (m_refCount obj < 1 \<and> representable (m_refCount obj - 1) \<longrightarrow>
            Release this h =
              Throws (domain_error (m_refCount obj - 1))
                (h\<lparr>objects := (objects h)(this \<mapsto> obj\<lparr>m_refCount := m_refCount obj - 1\<rparr>),
                  trace := trace h @ [Lock l, Store this (m_refCount obj - 1),
                    Log Released this (m_refCount obj - 1)]\<rparr>))
       \<and> (\<not> representable (m_refCount obj - 1) \<longrightarrow> Release this h = Undefined Signed_overflow)"
proof (intro conjI impI)
  assume "m_refCount obj = 1"
  with assms show "Release this h =
      Returns (h\<lparr>objects := (objects h)(this := None), locks := (locks h)(l := None),
        trace := trace h @
          [Lock l, Store this 0, Log Released this 0, Store this 1, Unlock l,
           Delete_this this,
           Lock l, Store this 0, Log Deleted this 0, Unlock l, Delete_lock l]\<rparr>)"
    by (rule Release_last)
next
  show "Release this
      (h\<lparr>objects := (objects h)(this := None), locks := (locks h)(l := None),
        trace := trace h @
          [Lock l, Store this 0, Log Released this 0, Store this 1, Unlock l,
           Delete_this this,
           Lock l, Store this 0, Log Deleted this 0, Unlock l, Delete_lock l]\<rparr>)
      = Undefined Use_after_free"
    by (simp add: Release_dead)
next
  assume "1 < m_refCount obj \<and> representable (m_refCount obj - 1)"
  with assms show "Release this h =
      Returns (h\<lparr>objects := (objects h)(this \<mapsto> obj\<lparr>m_refCount := m_refCount obj - 1\<rparr>),
        trace := trace h @ [Lock l, Store this (m_refCount obj - 1),
          Log Released this (m_refCount obj - 1), Unlock l]\<rparr>)"
    by (simp add: Release_shared)
next
  assume "m_refCount obj < 1 \<and> representable (m_refCount obj - 1)"
  with assms show "Release this h =
      Throws (domain_error (m_refCount obj - 1))
        (h\<lparr>objects := (objects h)(this \<mapsto> obj\<lparr>m_refCount := m_refCount obj - 1\<rparr>),
          trace := trace h @ [Lock l, Store this (m_refCount obj - 1),
            Log Released this (m_refCount obj - 1)]\<rparr>)"
    by (simp add: Release_negative)
next
  assume "\<not> representable (m_refCount obj - 1)"
  with assms show "Release this h = Undefined Signed_overflow"
    by (rule Release_overflow)
qed

theorem Release_destroys_at_last_reference_witness:
  "objects (example_heap 1) 0 \<noteq> None \<and> locks (example_heap 1) 1 = Some CriticalSectionEx \<and>
   Release 0 (example_heap 1) =
     Returns \<lparr>objects = Map.empty, locks = Map.empty, next_addr = 2,
       trace = [Lock 1, Store 0 0, Log Released 0 0, Store 0 1, Unlock 1, Delete_this 0,
                Lock 1, Store 0 0, Log Deleted 0 0, Unlock 1, Delete_lock 1]\<rparr> \<and>
   Release 0 (example_heap 2) =
     Returns \<lparr>objects = [0 \<mapsto> \<lparr>m_refCount = 1, m_refCounterLock = Some 1,
                              m_lockPolicy = LOCK_POLICY_CRITICALSECTION\<rparr>],
       locks = [1 \<mapsto> CriticalSectionEx], next_addr = 2,
       trace = [Lock 1, Store 0 1, Log Released 0 1, Unlock 1]\<rparr>"
  using Release_destroys_at_last_reference [of "example_heap 1" 0
      "\<lparr>m_refCount = 1, m_refCounterLock = Some 1, m_lockPolicy = LOCK_POLICY_CRITICALSECTION\<rparr>"
      1 CriticalSectionEx]
    Release_destroys_at_last_reference [of "example_heap 2" 0
      "\<lparr>m_refCount = 2, m_refCounterLock = Some 1, m_lockPolicy = LOCK_POLICY_CRITICALSECTION\<rparr>"
      1 CriticalSectionEx]
  by (simp add: example_heap_def int_defs)




text \<open>
  C3, as stated, fails: an object is constructed and released once, which destroys
  it; the second Release, one more than the owning references, acts on an object that
  is no longer in the store. Nothing is signalled; the behaviour is undefined.
\<close>

theorem extra_Release_after_destruction:
  "new_then_run LOCK_POLICY_CRITICALSECTION [Release_call, Release_call] empty_heap
   = Undefined Use_after_free"
  by (simp add: new_recognized empty_heap_def Release_def EP_DELETE_this_def SmartObject_dtor_def
      stmt_defs then_do_simps int_defs Let_def)

text \<open>
  C3, amended. On an object constructed with a recognized policy and retained \<open>n\<close>
  times (\<open>n\<close> below \<open>INT_MAX\<close>), the Release calls up to the number of owning references
  all return, and the last of them destroys the object. One more Release acts on the
  destroyed object and has no defined behaviour. Release throws only on a live object
  whose count before the call is below 1, and then it throws \<open>domain_error\<close> with the
  decremented count.
\<close>

theorem over_release_is_use_after_free:
  assumes "lock_class_of p = Some k" and "int n < INT_MAX"
  shows "(\<exists>h'. new_then_run p (replicate n Retain_call @ replicate (Suc n) Release_call) h = Returns h' \<and>
            objects h' (next_addr h) = None)
       \<and> new_then_run p (replicate n Retain_call @ replicate (Suc (Suc n)) Release_call) h
            = Undefined Use_after_free
       \<and> (\<forall>a g e g'. Release a g = Throws e g' \<longrightarrow>
            (\<exists>obj. objects g a = Some obj \<and> m_refCount obj < 1 \<and> e = domain_error (m_refCount obj - 1)))"
proof -
  let ?a = "next_addr h"
  let ?obj = "\<lparr>m_refCount = 1, m_refCounterLock = Some (Suc ?a), m_lockPolicy = p\<rparr>"
  let ?cs = "replicate n Retain_call @ replicate n Release_call"
  from balanced_run [OF assms, of h] obtain h1
    where r1: "new_then_run p ?cs h = Returns h1"
      and o1: "objects h1 = (objects h)(?a \<mapsto> ?obj)"
      and l1: "locks h1 = (locks h)(Suc ?a \<mapsto> k)"
    by blast
  let ?h2 = "h1\<lparr>objects := (objects h1)(?a := None), locks := (locks h1)(Suc ?a := None),
      trace := trace h1 @ [Lock (Suc ?a), Store ?a 0, Log Released ?a 0, Store ?a 1, Unlock (Suc ?a),
        Delete_this ?a, Lock (Suc ?a), Store ?a 0, Log Deleted ?a 0, Unlock (Suc ?a), Delete_lock (Suc ?a)]\<rparr>"
  have last: "Release ?a h1 = Returns ?h2"
    by (rule Release_last [where obj = ?obj and k = k]) (simp_all add: o1 l1)
  have dead: "Release ?a ?h2 = Undefined Use_after_free"
    by (simp add: Release_dead)
  have app: "new_then_run p (?cs @ ys) h = then_do (new_then_run p ?cs h) (run ys ?a)" for ys
    using assms(1) by (rule new_then_run_append)
  have e1: "replicate n Retain_call @ replicate (Suc n) Release_call = ?cs @ [Release_call]"
    by (simp add: replicate_append_same)
  have "replicate (n + 2) Release_call = replicate n Release_call @ replicate 2 Release_call"
    by (rule replicate_add)
  then have e2: "replicate n Retain_call @ replicate (Suc (Suc n)) Release_call
      = ?cs @ [Release_call, Release_call]"
    by (simp add: numeral_2_eq_2)
  have "new_then_run p (replicate n Retain_call @ replicate (Suc n) Release_call) h = Returns ?h2"
    unfolding e1 app r1 using last by (simp add: then_do_simps)
  moreover have "objects ?h2 ?a = None" by simp
  moreover have "new_then_run p (replicate n Retain_call @ replicate (Suc (Suc n)) Release_call) h
      = Undefined Use_after_free"
    unfolding e2 app r1 using last dead by (simp add: then_do_simps)
  ultimately show ?thesis
    using Release_throws_only_negative by blast
qed

theorem over_release_is_use_after_free_witness:
  "lock_class_of LOCK_POLICY_MUTEX = Some Mutex \<and> int 1 < INT_MAX \<and>
   (\<exists>h'. new_then_run LOCK_POLICY_MUTEX [Retain_call, Release_call, Release_call] empty_heap = Returns h' \<and>
      objects h' 0 = None) \<and>
   new_then_run LOCK_POLICY_MUTEX [Retain_call, Release_call, Release_call, Release_call] empty_heap
     = Undefined Use_after_free"
  using over_release_is_use_after_free [of LOCK_POLICY_MUTEX Mutex 1 empty_heap]
  by (simp add: INT_MAX_def empty_heap_def)

text \<open>
  C4. An object is constructed and retained once, so its count is 2, and is then
  destroyed directly. The destructor takes the lock, writes the decremented count 1 and
  throws \<open>runtime_error\<close> carrying 1. The trace ends with the log line, and the lock is
  still in the store: after the error is signalled the destructor neither releases
  nor frees the lock.
\<close>

theorem dtor_nonzero_count_keeps_lock:
  "then_do (new_then_run LOCK_POLICY_MUTEX [Retain_call] empty_heap) (SmartObject_dtor 0) =
     Throws (runtime_error 1)
       \<lparr>objects = [0 \<mapsto> \<lparr>m_refCount = 1, m_refCounterLock = Some 1, m_lockPolicy = LOCK_POLICY_MUTEX\<rparr>],
        locks = [1 \<mapsto> Mutex], next_addr = 2,
        trace = [Store 0 1, Log Allocated 0 1, New_lock 1 Mutex,
                 Lock 1, Store 0 2, Log Retained 0 2, Unlock 1,
                 Lock 1, Store 0 1, Log Deleted 0 1]\<rparr>"
  by (simp add: new_then_run_def EP_NEW_SmartObject_def SmartObject_ctor_def EP_NEW_lock_def empty_heap_def
    Retain_def SmartObject_dtor_def stmt_defs then_do_simps int_defs Let_def)

text \<open>
  C5, as stated, fails for large \<open>n\<close>: the count is an \<open>int\<close> of 32 bits that starts
  at 1, so the Retain call number 2147483647 increments \<open>INT_MAX\<close>, a signed overflow.
\<close>

theorem retain_release_overflow:
  "new_then_run LOCK_POLICY_CRITICALSECTION
     (replicate 2147483647 Retain_call @ replicate 2147483647 Release_call) empty_heap
   = Undefined Signed_overflow"
  by (rule Retains_overflow [where k = CriticalSectionEx]) (simp_all add: INT_MAX_def)

text \<open>
  C5, amended. For every \<open>n\<close> below \<open>INT_MAX\<close> (that is, up to 2147483646), \<open>n\<close> Retain
  calls followed by \<open>n\<close> Release calls on an object newly constructed with a recognized
  policy all return: no call throws, the object is in the store afterwards with
  count 1, and no \<open>delete this\<close> of it has run.
\<close>

theorem retain_release_balanced:
  assumes "lock_class_of p = Some k" and "int n < INT_MAX"
  shows "\<exists>h' es. new_then_run p (replicate n Retain_call @ replicate n Release_call) h = Returns h' \<and>
     objects h' (next_addr h) =
       Some \<lparr>m_refCount = 1, m_refCounterLock = Some (Suc (next_addr h)), m_lockPolicy = p\<rparr> \<and>
     trace h' = trace h @ es \<and> Delete_this (next_addr h) \<notin> set es"
proof -
  from balanced_run [OF assms, of h] obtain h' es
    where "new_then_run p (replicate n Retain_call @ replicate n Release_call) h = Returns h'"
      and "objects h' = (objects h)(next_addr h \<mapsto>
        \<lparr>m_refCount = 1, m_refCounterLock = Some (Suc (next_addr h)), m_lockPolicy = p\<rparr>)"
      and "trace h' = trace h @ es" and "Delete_this (next_addr h) \<notin> set es"
    by blast
  then show ?thesis by auto
qed

theorem retain_release_balanced_witness:
  "lock_class_of LOCK_POLICY_NONE = Some NoLock \<and> int 2 < INT_MAX \<and>
   (\<exists>h' es. new_then_run LOCK_POLICY_NONE [Retain_call, Retain_call, Release_call, Release_call] empty_heap
        = Returns h' \<and>
      objects h' 0 = Some \<lparr>m_refCount = 1, m_refCounterLock = Some 1, m_lockPolicy = LOCK_POLICY_NONE\<rparr> \<and>
      trace h' = es \<and> Delete_this 0 \<notin> set es)"
  using retain_release_balanced [of LOCK_POLICY_NONE NoLock 2 empty_heap]
  by (simp add: INT_MAX_def empty_heap_def numeral_2_eq_2)

text \<open>
  C6, as stated, fails for a source whose policy is a value outside the three
  policies (an object the constructor returns, with a null lock pointer): the copy
  gets count 1 and the source's policy value, but the \<open>switch\<close> of the copy
  constructor takes its \<open>default\<close> label, builds no lock and leaves the copy's lock
  pointer null.
\<close>

theorem copy_of_unrecognized_policy:
  "then_do (new_then_run (LOCK_POLICY_OTHER 3) [] empty_heap) (EP_NEW_copy 0) =
     Returns \<lparr>objects = [0 \<mapsto> \<lparr>m_refCount = 1, m_refCounterLock = None,
                              m_lockPolicy = LOCK_POLICY_OTHER 3\<rparr>,
                         1 \<mapsto> \<lparr>m_refCount = 1, m_refCounterLock = None,
                              m_lockPolicy = LOCK_POLICY_OTHER 3\<rparr>],
              locks = Map.empty, next_addr = 2,
              trace = [Store 0 1, Log Allocated 0 1, Store 1 1, Log Allocated 1 1]\<rparr>"
  by (simp add: new_other empty_heap_def EP_NEW_copy_def SmartObject_copy_ctor_def
      LOG_THIS_MSG_def emit_def then_do_simps)

text \<open>
  C6, amended. Copy construction from a live source whose policy is one of the three
  recognized policies, in a store that satisfies the allocator's invariant, into
  storage that holds no object: the new object has count 1 whatever the source's count
  is, has the source's policy, and points to a lock at an address that was unused
  before, is allocated now with the class the policy names, and is not the lock of
  the source or of any other object. The source, the other objects and the other
  locks are unchanged.
\<close>

theorem copy_ctor_fresh:
  assumes "objects h b = Some src" and "lock_class_of (m_lockPolicy src) = Some k"
    and "heap_ok h" and "objects h this = None"
  shows "\<exists>h'. SmartObject_copy_ctor this b h = Returns h' \<and>
     objects h' this = Some \<lparr>m_refCount = 1, m_refCounterLock = Some (next_addr h),
                              m_lockPolicy = m_lockPolicy src\<rparr> \<and>
     locks h (next_addr h) = None \<and> locks h' (next_addr h) = Some k \<and>
     m_refCounterLock src \<noteq> Some (next_addr h) \<and>
     (\<forall>a obj. objects h a = Some obj \<longrightarrow> m_refCounterLock obj \<noteq> Some (next_addr h)) \<and>
     objects h' b = Some src \<and>
     (\<forall>a. a \<noteq> this \<longrightarrow> objects h' a = objects h a) \<and>
     (\<forall>l. l \<noteq> next_addr h \<longrightarrow> locks h' l = locks h l)"
proof -
  from assms(3) have fresh: "locks h (next_addr h) = None"
    unfolding heap_ok_def by (metis less_irrefl not_Some_eq)
  from assms(3) have unshared: "\<forall>a obj. objects h a = Some obj \<longrightarrow> m_refCounterLock obj \<noteq> Some (next_addr h)"
    unfolding heap_ok_def by (metis less_irrefl)
  from assms(1,4) have "this \<noteq> b" by auto
  with assms(1,2) fresh unshared show ?thesis
    by (simp add: copy_ctor_recognized)
qed

theorem copy_ctor_fresh_witness:
  "heap_ok (example_heap 5) \<and>
   (\<exists>h'. SmartObject_copy_ctor 3 0 ((example_heap 5)\<lparr>next_addr := 4\<rparr>) = Returns h' \<and>
      objects h' 3 = Some \<lparr>m_refCount = 1, m_refCounterLock = Some 4,
                            m_lockPolicy = LOCK_POLICY_CRITICALSECTION\<rparr> \<and>
      locks h' 4 = Some CriticalSectionEx \<and>
      objects h' 0 = objects (example_heap 5) 0 \<and> locks h' 1 = Some CriticalSectionEx)"
proof -
  have ok: "heap_ok (example_heap 5)" "heap_ok ((example_heap 5)\<lparr>next_addr := 4\<rparr>)"
    by (auto simp: heap_ok_def example_heap_def split: if_splits)
  have o: "objects ((example_heap 5)\<lparr>next_addr := 4\<rparr>) 0 =
      Some \<lparr>m_refCount = 5, m_refCounterLock = Some 1, m_lockPolicy = LOCK_POLICY_CRITICALSECTION\<rparr>"
    and n: "objects ((example_heap 5)\<lparr>next_addr := 4\<rparr>) 3 = None"
    by (simp_all add: example_heap_def)
  show ?thesis
    using copy_ctor_fresh [OF o _ ok(2) n, of CriticalSectionEx] ok(1)
    by (auto simp: example_heap_def)
qed

text \<open>
  C7. The assignment operator returns the address of its left operand, and the
  objects (with their counts, lock pointers and policies) and the locks of the store
  are the same after the call as before, for both operands.
\<close>

theorem operator_assign_frame:
  "fst (operator_assign this b h) = this \<and>
   objects (snd (operator_assign this b h)) = objects h \<and>
   locks (snd (operator_assign this b h)) = locks h"
  by (simp add: operator_assign_def)

text \<open>
  C8, as stated, fails in its last part: construction with a value outside the three
  policies returns normally. It stores the value, sets the count to 1 and leaves the
  lock pointer null; nothing fails.
\<close>

theorem ctor_unrecognized_policy_returns:
  "new_then_run (LOCK_POLICY_OTHER 7) [] empty_heap =
     Returns \<lparr>objects = [0 \<mapsto> \<lparr>m_refCount = 1, m_refCounterLock = None,
                              m_lockPolicy = LOCK_POLICY_OTHER 7\<rparr>],
              locks = Map.empty, next_addr = 1,
              trace = [Store 0 1, Log Allocated 0 1]\<rparr>"
  by (simp add: new_then_run_def EP_NEW_SmartObject_def ctor_other empty_heap_def then_do_simps)

text \<open>
  C8, amended. The constructor always returns. The new object has count 1 and the
  policy it was given; for a recognized policy its lock pointer is a newly allocated
  lock of the class the policy names, for any other value the lock pointer is null
  and no lock is allocated. Retain and Release, whether they return or throw, leave
  the policy and the lock pointer of an object as they were.
\<close>

theorem ctor_initializes:
  "(\<exists>h'. SmartObject_ctor this p h = Returns h' \<and>
      objects h' this = Some \<lparr>m_refCount = 1,
        m_refCounterLock = (case lock_class_of p of None \<Rightarrow> None | Some k \<Rightarrow> Some (next_addr h)),
        m_lockPolicy = p\<rparr> \<and>
      locks h' = (case lock_class_of p of None \<Rightarrow> locks h | Some k \<Rightarrow> (locks h)(next_addr h \<mapsto> k))) \<and>
   (\<forall>obj h' e obj'. objects h this = Some obj \<and>
        (Retain this h = Returns h' \<or> Retain this h = Throws e h' \<or>
         Release this h = Returns h' \<or> Release this h = Throws e h') \<and>
        objects h' this = Some obj' \<longrightarrow>
      m_lockPolicy obj' = m_lockPolicy obj \<and> m_refCounterLock obj' = m_refCounterLock obj)"
proof -
  have init: "\<exists>h'. SmartObject_ctor this p h = Returns h' \<and>
      objects h' this = Some \<lparr>m_refCount = 1,
        m_refCounterLock = (case lock_class_of p of None \<Rightarrow> None | Some k \<Rightarrow> Some (next_addr h)),
        m_lockPolicy = p\<rparr> \<and>
      locks h' = (case lock_class_of p of None \<Rightarrow> locks h | Some k \<Rightarrow> (locks h)(next_addr h \<mapsto> k))"
    by (cases "lock_class_of p") (simp_all add: ctor_other ctor_recognized)
  have keep: "m_lockPolicy obj' = m_lockPolicy obj \<and> m_refCounterLock obj' = m_refCounterLock obj"
    if a: "objects h this = Some obj \<and>
        (Retain this h = Returns h' \<or> Retain this h = Throws e h' \<or>
         Release this h = Returns h' \<or> Release this h = Throws e h') \<and>
        objects h' this = Some obj'" for obj h' e obj'
  proof -
    from a have "\<exists>n. objects h' this = Some (obj\<lparr>m_refCount := n\<rparr>)"
      using Retain_fields [of h this obj h' e] Release_fields [of h this obj h' e] by auto
    with a show ?thesis by auto
  qed
  from init keep show ?thesis by blast
qed

theorem ctor_initializes_witness:
  "(\<exists>h'. SmartObject_ctor 0 LOCK_POLICY_MUTEX (empty_heap\<lparr>next_addr := 1\<rparr>) = Returns h' \<and>
      objects h' 0 = Some \<lparr>m_refCount = 1, m_refCounterLock = Some 1, m_lockPolicy = LOCK_POLICY_MUTEX\<rparr> \<and>
      locks h' = [1 \<mapsto> Mutex]) \<and>
   (\<exists>h'. Retain 0 (example_heap 1) = Returns h' \<and>
      m_lockPolicy (the (objects h' 0)) = LOCK_POLICY_CRITICALSECTION \<and>
      m_refCounterLock (the (objects h' 0)) = Some 1)"
proof -
  let ?obj = "\<lparr>m_refCount = 1, m_refCounterLock = Some 1, m_lockPolicy = LOCK_POLICY_CRITICALSECTION\<rparr>"
  let ?h' = "(example_heap 1)\<lparr>objects := (objects (example_heap 1))(0 \<mapsto> ?obj\<lparr>m_refCount := m_refCount ?obj + 1\<rparr>),
      trace := trace (example_heap 1) @ [Lock 1, Store 0 (m_refCount ?obj + 1),
        Log Retained 0 (m_refCount ?obj + 1), Unlock 1]\<rparr>"
  have r: "Retain 0 (example_heap 1) = Returns ?h'"
    by (rule Retain_live [where k = CriticalSectionEx]) (simp_all add: example_heap_def int_defs)
  have o: "objects (example_heap 1) 0 = Some ?obj"
    by (simp add: example_heap_def)
  have "objects ?h' 0 = Some (?obj\<lparr>m_refCount := 2\<rparr>)"
    by simp
  with r o
    ctor_initializes [of 0 LOCK_POLICY_MUTEX "empty_heap\<lparr>next_addr := 1\<rparr>",
      THEN conjunct1]
    ctor_initializes [of 0 LOCK_POLICY_MUTEX "example_heap 1",
      THEN conjunct2, rule_format, of ?obj ?h' "domain_error 0" "?obj\<lparr>m_refCount := 2\<rparr>"]
  show ?thesis
    by (simp add: empty_heap_def)
qed

text \<open>
  A sequence of calls on a new object: what holds when it returns, and when it does.
\<close>

lemma new_run_owners:
  "(\<forall>h'. new_then_run p cs h = Returns h' \<longrightarrow>
      (\<exists>es. trace h' = trace h @ es \<and> (\<forall>n. Store (next_addr h) n \<in> set es \<longrightarrow> 0 \<le> n)) \<and>
      (\<forall>obj. objects h' (next_addr h) = Some obj \<longrightarrow>
         0 \<le> m_refCount obj \<and> m_refCount obj = owners cs))
   \<and> (lock_class_of p \<noteq> None \<and> stays_shared 1 cs \<longrightarrow>
      (\<exists>h' obj. new_then_run p cs h = Returns h' \<and> objects h' (next_addr h) = Some obj \<and>
         m_refCount obj = owners cs))"
proof (rule conjI)
  let ?a = "next_addr h"
  show "\<forall>h'. new_then_run p cs h = Returns h' \<longrightarrow>
      (\<exists>es. trace h' = trace h @ es \<and> (\<forall>n. Store ?a n \<in> set es \<longrightarrow> 0 \<le> n)) \<and>
      (\<forall>obj. objects h' ?a = Some obj \<longrightarrow> 0 \<le> m_refCount obj \<and> m_refCount obj = owners cs)"
  proof (intro allI impI)
    fix h'
    assume ret: "new_then_run p cs h = Returns h'"
    show "(\<exists>es. trace h' = trace h @ es \<and> (\<forall>n. Store ?a n \<in> set es \<longrightarrow> 0 \<le> n)) \<and>
      (\<forall>obj. objects h' ?a = Some obj \<longrightarrow> 0 \<le> m_refCount obj \<and> m_refCount obj = owners cs)"
    proof (cases "lock_class_of p")
      case None
      let ?obj = "\<lparr>m_refCount = 1, m_refCounterLock = None, m_lockPolicy = p\<rparr>"
      let ?h0 = "h\<lparr>next_addr := Suc ?a, objects := (objects h)(?a \<mapsto> ?obj),
            trace := trace h @ [Store ?a 1, Log Allocated ?a 1]\<rparr>"
      from ret None have r: "run cs ?a ?h0 = Returns h'"
        by (simp add: new_other)
      have "cs = []"
      proof (rule ccontr)
        assume "cs \<noteq> []"
        then have "run cs ?a ?h0 = Undefined Null_dereference"
          by (intro run_null [where obj = ?obj]) simp_all
        with r show False by simp
      qed
      with r have h': "h' = ?h0" by simp
      have "trace ?h0 = trace h @ [Store ?a 1, Log Allocated ?a 1] \<and>
          (\<forall>n. Store ?a n \<in> set [Store ?a 1, Log Allocated ?a 1] \<longrightarrow> 0 \<le> n)"
        by simp
      then have "\<exists>es. trace ?h0 = trace h @ es \<and> (\<forall>n. Store ?a n \<in> set es \<longrightarrow> 0 \<le> n)"
        by (rule exI)
      with h' \<open>cs = []\<close> show ?thesis
        by (simp add: owners_simps)
    next
      case (Some k)
      let ?obj = "\<lparr>m_refCount = 1, m_refCounterLock = Some (Suc ?a), m_lockPolicy = p\<rparr>"
      let ?h0 = "h\<lparr>objects := (objects h)(?a \<mapsto> ?obj),
            locks := (locks h)(Suc ?a \<mapsto> k),
            next_addr := Suc (Suc ?a),
            trace := trace h @ [Store ?a 1, Log Allocated ?a 1, New_lock (Suc ?a) k]\<rparr>"
      from ret Some have r: "run cs ?a ?h0 = Returns h'"
        by (simp add: new_recognized)
      have "(\<exists>es. trace h' = trace ?h0 @ es \<and> (\<forall>n. Store ?a n \<in> set es \<longrightarrow> 0 \<le> n)) \<and>
        (\<forall>obj'. objects h' ?a = Some obj' \<longrightarrow>
           m_refCount obj' = m_refCount ?obj + owners cs - 1 \<and> 1 \<le> m_refCount obj')"
        using r by (rule run_counts [where l = "Suc ?a" and k = k]) simp_all
      then obtain es where es: "trace h' = trace ?h0 @ es" "\<forall>n. Store ?a n \<in> set es \<longrightarrow> 0 \<le> n"
        and cnt: "\<forall>obj'. objects h' ?a = Some obj' \<longrightarrow>
           m_refCount obj' = m_refCount ?obj + owners cs - 1 \<and> 1 \<le> m_refCount obj'"
        by blast
      have "trace h' = trace h @ ([Store ?a 1, Log Allocated ?a 1, New_lock (Suc ?a) k] @ es) \<and>
          (\<forall>n. Store ?a n \<in> set ([Store ?a 1, Log Allocated ?a 1, New_lock (Suc ?a) k] @ es)
              \<longrightarrow> 0 \<le> n)"
        using es by simp
      then have "\<exists>es. trace h' = trace h @ es \<and> (\<forall>n. Store ?a n \<in> set es \<longrightarrow> 0 \<le> n)"
        by (rule exI)
      moreover have "\<forall>obj. objects h' ?a = Some obj \<longrightarrow> 0 \<le> m_refCount obj \<and> m_refCount obj = owners cs"
      proof (intro allI impI)
        fix obj
        assume "objects h' ?a = Some obj"
        with cnt have "m_refCount obj = m_refCount ?obj + owners cs - 1 \<and> 1 \<le> m_refCount obj"
          by blast
        then show "0 \<le> m_refCount obj \<and> m_refCount obj = owners cs"
          by simp
      qed
      ultimately show ?thesis by (rule conjI)
    qed
  qed
next
  let ?a = "next_addr h"
  show "lock_class_of p \<noteq> None \<and> stays_shared 1 cs \<longrightarrow>
      (\<exists>h' obj. new_then_run p cs h = Returns h' \<and> objects h' ?a = Some obj \<and>
         m_refCount obj = owners cs)"
  proof
    assume a: "lock_class_of p \<noteq> None \<and> stays_shared 1 cs"
    then obtain k where k: "lock_class_of p = Some k" by auto
    let ?obj = "\<lparr>m_refCount = 1, m_refCounterLock = Some (Suc ?a), m_lockPolicy = p\<rparr>"
    let ?h0 = "h\<lparr>objects := (objects h)(?a \<mapsto> ?obj),
          locks := (locks h)(Suc ?a \<mapsto> k),
          next_addr := Suc (Suc ?a),
          trace := trace h @ [Store ?a 1, Log Allocated ?a 1, New_lock (Suc ?a) k]\<rparr>"
    have "\<exists>h' es. run cs ?a ?h0 = Returns h' \<and>
       objects h' = (objects ?h0)(?a \<mapsto> ?obj\<lparr>m_refCount := m_refCount ?obj + owners cs - 1\<rparr>) \<and>
       locks h' = locks ?h0 \<and> next_addr h' = next_addr ?h0 \<and>
       trace h' = trace ?h0 @ es \<and> Delete_this ?a \<notin> set es"
      using a by (intro run_stays_shared [where l = "Suc ?a" and k = k]) (simp_all add: INT_MAX_def)
    then obtain h' where r: "run cs ?a ?h0 = Returns h'"
      and o: "objects h' = (objects ?h0)(?a \<mapsto> ?obj\<lparr>m_refCount := m_refCount ?obj + owners cs - 1\<rparr>)"
      by blast
    from r k have "new_then_run p cs h = Returns h'"
      by (simp add: new_recognized)
    moreover from o have "objects h' ?a = Some (?obj\<lparr>m_refCount := owners cs\<rparr>)"
      by simp
    ultimately show "\<exists>h' obj. new_then_run p cs h = Returns h' \<and> objects h' ?a = Some obj \<and>
         m_refCount obj = owners cs"
      by (intro exI [of _ h'] exI [of _ "?obj\<lparr>m_refCount := owners cs\<rparr>"]) simp
  qed
qed

text \<open>
  C9, as stated, fails for long sequences: after 2147483647 Retain calls on a new
  object the number of owning references is 2147483648, which the 32-bit count cannot
  hold; the last Retain increments \<open>INT_MAX\<close>, a signed overflow.
\<close>

theorem count_cannot_hold_owners:
  "new_then_run LOCK_POLICY_CRITICALSECTION (replicate 2147483647 Retain_call) empty_heap
     = Undefined Signed_overflow
   \<and> INT_MAX < owners (replicate 2147483647 Retain_call)"
proof (rule conjI)
  show "new_then_run LOCK_POLICY_CRITICALSECTION (replicate 2147483647 Retain_call) empty_heap
     = Undefined Signed_overflow"
    by (rule Retains_overflow_only [where k = CriticalSectionEx]) (simp_all add: INT_MAX_def)
next
  show "INT_MAX < owners (replicate 2147483647 Retain_call)"
    by (subst owners_replicate) (simp add: INT_MAX_def)
qed

text \<open>
  C9, amended. Take any sequence of Retain and Release calls on a newly constructed
  object. If the calls return, then every value that was written to the count of the
  object, from its construction on, is at least 0; and if the object is still in the
  store, its count is at least 0 and equals the number of owning references: the
  construction reference, plus the Retain calls, minus the Release calls. And when
  the policy is recognized and the sequence never releases the last reference nor
  counts beyond \<open>INT_MAX\<close> (2147483647), then after every prefix of the sequence the
  calls have returned, the object is in the store, and its count is at least 0 and
  equals the number of owning references.
\<close>

theorem refCount_counts_owners:
  "(\<forall>h'. new_then_run p cs h = Returns h' \<longrightarrow>
      (\<exists>es. trace h' = trace h @ es \<and> (\<forall>n. Store (next_addr h) n \<in> set es \<longrightarrow> 0 \<le> n)) \<and>
      (\<forall>obj. objects h' (next_addr h) = Some obj \<longrightarrow>
         0 \<le> m_refCount obj \<and> m_refCount obj = owners cs))
   \<and> (lock_class_of p \<noteq> None \<and> stays_shared 1 cs \<longrightarrow>
      (\<forall>i. \<exists>h' obj es. new_then_run p (take i cs) h = Returns h' \<and>
         objects h' (next_addr h) = Some obj \<and>
         m_refCount obj = owners (take i cs) \<and> 0 \<le> m_refCount obj \<and>
         trace h' = trace h @ es \<and> (\<forall>n. Store (next_addr h) n \<in> set es \<longrightarrow> 0 \<le> n)))"
proof (rule conjI)
  show "\<forall>h'. new_then_run p cs h = Returns h' \<longrightarrow>
      (\<exists>es. trace h' = trace h @ es \<and> (\<forall>n. Store (next_addr h) n \<in> set es \<longrightarrow> 0 \<le> n)) \<and>
      (\<forall>obj. objects h' (next_addr h) = Some obj \<longrightarrow>
         0 \<le> m_refCount obj \<and> m_refCount obj = owners cs)"
    by (rule new_run_owners [THEN conjunct1])
next
  show "lock_class_of p \<noteq> None \<and> stays_shared 1 cs \<longrightarrow>
      (\<forall>i. \<exists>h' obj es. new_then_run p (take i cs) h = Returns h' \<and>
         objects h' (next_addr h) = Some obj \<and>
         m_refCount obj = owners (take i cs) \<and> 0 \<le> m_refCount obj \<and>
         trace h' = trace h @ es \<and> (\<forall>n. Store (next_addr h) n \<in> set es \<longrightarrow> 0 \<le> n))"
  proof (intro impI allI)
    fix i
    assume a: "lock_class_of p \<noteq> None \<and> stays_shared 1 cs"
    then have "lock_class_of p \<noteq> None \<and> stays_shared 1 (take i cs)"
      by (simp add: stays_shared_take)
    with new_run_owners [of p "take i cs" h, THEN conjunct2]
    obtain h' obj where r: "new_then_run p (take i cs) h = Returns h'"
      and o: "objects h' (next_addr h) = Some obj" and c: "m_refCount obj = owners (take i cs)"
      by blast
    from new_run_owners [of p "take i cs" h, THEN conjunct1] r
    have "(\<exists>es. trace h' = trace h @ es \<and> (\<forall>n. Store (next_addr h) n \<in> set es \<longrightarrow> 0 \<le> n)) \<and>
      (\<forall>obj. objects h' (next_addr h) = Some obj \<longrightarrow>
         0 \<le> m_refCount obj \<and> m_refCount obj = owners (take i cs))"
      by blast
    with o obtain es where "trace h' = trace h @ es" "\<forall>n. Store (next_addr h) n \<in> set es \<longrightarrow> 0 \<le> n"
      and "0 \<le> m_refCount obj"
      by blast
    with r o c show "\<exists>h' obj es. new_then_run p (take i cs) h = Returns h' \<and>
         objects h' (next_addr h) = Some obj \<and>
         m_refCount obj = owners (take i cs) \<and> 0 \<le> m_refCount obj \<and>
         trace h' = trace h @ es \<and> (\<forall>n. Store (next_addr h) n \<in> set es \<longrightarrow> 0 \<le> n)"
      by blast
  qed
qed

theorem refCount_counts_owners_witness:
  "lock_class_of LOCK_POLICY_NONE \<noteq> None \<and> stays_shared 1 [Retain_call, Retain_call, Release_call] \<and>
   (\<exists>h' obj es. new_then_run LOCK_POLICY_NONE [Retain_call, Retain_call, Release_call] empty_heap
        = Returns h' \<and>
      objects h' 0 = Some obj \<and> m_refCount obj = 2 \<and> trace h' = es \<and>
      (\<forall>n. Store 0 n \<in> set es \<longrightarrow> 0 \<le> n))"
proof -
  have s: "lock_class_of LOCK_POLICY_NONE \<noteq> None \<and> stays_shared 1 [Retain_call, Retain_call, Release_call]"
    by (simp add: INT_MAX_def)
  have o: "owners [Retain_call, Retain_call, Release_call] = 2"
    by (simp add: owners_def)
  have t: "take 3 [Retain_call, Retain_call, Release_call] = [Retain_call, Retain_call, Release_call]"
    by simp
  from s refCount_counts_owners [of LOCK_POLICY_NONE "[Retain_call, Retain_call, Release_call]" empty_heap,
      THEN conjunct2, rule_format, of 3]
  have "\<exists>h' obj es. new_then_run LOCK_POLICY_NONE [Retain_call, Retain_call, Release_call] empty_heap
        = Returns h' \<and>
      objects h' (next_addr empty_heap) = Some obj \<and> m_refCount obj = 2 \<and>
      trace h' = trace empty_heap @ es \<and>
      (\<forall>n. Store (next_addr empty_heap) n \<in> set es \<longrightarrow> 0 \<le> n)"
    unfolding t o by blast
  with s show ?thesis by (simp add: empty_heap_def)
qed

text \<open>
  C10. Release never throws \<open>runtime_error\<close>, the error of the destructor's check. On
  the zero-crossing path (a live object with an allocated lock whose count is 1),
  Release returns the store in which the object and its lock are gone, and its trace
  shows the order: the count is written and logged as 0, the dummy increment writes 1
  before the lock is released, then \<open>delete this\<close> runs and the destructor writes and
  logs the count 0, releases the lock and deletes it. Release reaches \<open>delete this\<close>
  in the store whose stored count is 1; the destructor, run there, returns with the
  stored count 0. Run on a stored count of 0 instead, as it would be without the
  dummy increment, the destructor throws \<open>runtime_error\<close>.
\<close>

theorem Release_pairs_with_destructor:
  "(\<forall>n h'. Release this h \<noteq> Throws (runtime_error n) h') \<and>
   (\<forall>obj l k. objects h this = Some obj \<and> m_refCounterLock obj = Some l \<and> locks h l = Some k \<and>
        m_refCount obj = 1 \<longrightarrow>
      Release this h =
        Returns (h\<lparr>objects := (objects h)(this := None), locks := (locks h)(l := None),
          trace := trace h @
            [Lock l, Store this 0, Log Released this 0, Store this 1, Unlock l,
             Delete_this this,
             Lock l, Store this 0, Log Deleted this 0, Unlock l, Delete_lock l]\<rparr>) \<and>
      Release this h =
        EP_DELETE_this this
          (h\<lparr>objects := (objects h)(this \<mapsto> obj\<lparr>m_refCount := 1\<rparr>),
            trace := trace h @
              [Lock l, Store this 0, Log Released this 0, Store this 1, Unlock l]\<rparr>) \<and>
      SmartObject_dtor this
          (h\<lparr>objects := (objects h)(this \<mapsto> obj\<lparr>m_refCount := 1\<rparr>),
            trace := trace h @
              [Lock l, Store this 0, Log Released this 0, Store this 1, Unlock l,
               Delete_this this]\<rparr>) =
        Returns (h\<lparr>objects := (objects h)(this \<mapsto> obj\<lparr>m_refCount := 0\<rparr>),
          locks := (locks h)(l := None),
          trace := trace h @
            [Lock l, Store this 0, Log Released this 0, Store this 1, Unlock l,
             Delete_this this,
             Lock l, Store this 0, Log Deleted this 0, Unlock l, Delete_lock l]\<rparr>) \<and>
      SmartObject_dtor this
          (h\<lparr>objects := (objects h)(this \<mapsto> obj\<lparr>m_refCount := 0\<rparr>),
            trace := trace h @
              [Lock l, Store this 0, Log Released this 0, Unlock l, Delete_this this]\<rparr>) =
        Throws (runtime_error (- 1))
          (h\<lparr>objects := (objects h)(this \<mapsto> obj\<lparr>m_refCount := - 1\<rparr>),
            trace := trace h @
              [Lock l, Store this 0, Log Released this 0, Unlock l, Delete_this this,
               Lock l, Store this (- 1), Log Deleted this (- 1)]\<rparr>))"
proof (intro conjI allI impI)
  fix n h'
  show "Release this h \<noteq> Throws (runtime_error n) h'"
  proof
    assume "Release this h = Throws (runtime_error n) h'"
    from Release_throws_only_negative [OF this] show False by auto
  qed
next
  fix obj l k
  assume a: "objects h this = Some obj \<and> m_refCounterLock obj = Some l \<and> locks h l = Some k \<and>
        m_refCount obj = 1"
  then show "Release this h =
        Returns (h\<lparr>objects := (objects h)(this := None), locks := (locks h)(l := None),
          trace := trace h @
            [Lock l, Store this 0, Log Released this 0, Store this 1, Unlock l,
             Delete_this this,
             Lock l, Store this 0, Log Deleted this 0, Unlock l, Delete_lock l]\<rparr>)"
    by (simp add: Release_last)
  from a show "Release this h =
        EP_DELETE_this this
          (h\<lparr>objects := (objects h)(this \<mapsto> obj\<lparr>m_refCount := 1\<rparr>),
            trace := trace h @
              [Lock l, Store this 0, Log Released this 0, Store this 1, Unlock l]\<rparr>)"
    by (simp add: Release_before_delete)
  let ?h5 = "h\<lparr>objects := (objects h)(this \<mapsto> obj\<lparr>m_refCount := 1\<rparr>),
            trace := trace h @
              [Lock l, Store this 0, Log Released this 0, Store this 1, Unlock l,
               Delete_this this]\<rparr>"
  have "SmartObject_dtor this ?h5 =
      Returns (?h5\<lparr>objects := (objects ?h5)(this \<mapsto> (obj\<lparr>m_refCount := 1\<rparr>)\<lparr>m_refCount := 0\<rparr>),
        locks := (locks ?h5)(l := None),
        trace := trace ?h5 @ [Lock l, Store this 0, Log Deleted this 0, Unlock l, Delete_lock l]\<rparr>)"
    using a by (intro dtor_last) simp_all
  then show "SmartObject_dtor this ?h5 =
        Returns (h\<lparr>objects := (objects h)(this \<mapsto> obj\<lparr>m_refCount := 0\<rparr>),
          locks := (locks h)(l := None),
          trace := trace h @
            [Lock l, Store this 0, Log Released this 0, Store this 1, Unlock l,
             Delete_this this,
             Lock l, Store this 0, Log Deleted this 0, Unlock l, Delete_lock l]\<rparr>)"
    by simp
  let ?h0 = "h\<lparr>objects := (objects h)(this \<mapsto> obj\<lparr>m_refCount := 0\<rparr>),
            trace := trace h @
              [Lock l, Store this 0, Log Released this 0, Unlock l, Delete_this this]\<rparr>"
  have "SmartObject_dtor this ?h0 =
      Throws (runtime_error (m_refCount (obj\<lparr>m_refCount := 0\<rparr>) - 1))
        (?h0\<lparr>objects := (objects ?h0)(this \<mapsto>
            (obj\<lparr>m_refCount := 0\<rparr>)\<lparr>m_refCount := m_refCount (obj\<lparr>m_refCount := 0\<rparr>) - 1\<rparr>),
          trace := trace ?h0 @ [Lock l, Store this (m_refCount (obj\<lparr>m_refCount := 0\<rparr>) - 1),
            Log Deleted this (m_refCount (obj\<lparr>m_refCount := 0\<rparr>) - 1)]\<rparr>)"
    using a by (intro dtor_nonzero) (simp_all add: int_defs)
  then show "SmartObject_dtor this ?h0 =
        Throws (runtime_error (- 1))
          (h\<lparr>objects := (objects h)(this \<mapsto> obj\<lparr>m_refCount := - 1\<rparr>),
            trace := trace h @
              [Lock l, Store this 0, Log Released this 0, Unlock l, Delete_this this,
               Lock l, Store this (- 1), Log Deleted this (- 1)]\<rparr>)"
    by simp
qed

theorem Release_pairs_with_destructor_witness:
  "objects (example_heap 1) 0 \<noteq> None \<and> locks (example_heap 1) 1 = Some CriticalSectionEx \<and>
   (\<forall>n h'. Release 0 (example_heap 1) \<noteq> Throws (runtime_error n) h') \<and>
   Release 0 (example_heap 1) =
     Returns \<lparr>objects = Map.empty, locks = Map.empty, next_addr = 2,
       trace = [Lock 1, Store 0 0, Log Released 0 0, Store 0 1, Unlock 1, Delete_this 0,
                Lock 1, Store 0 0, Log Deleted 0 0, Unlock 1, Delete_lock 1]\<rparr>"
proof -
  have o: "objects (example_heap 1) 0 = Some \<lparr>m_refCount = 1, m_refCounterLock = Some 1,
      m_lockPolicy = LOCK_POLICY_CRITICALSECTION\<rparr>"
    and l: "locks (example_heap 1) 1 = Some CriticalSectionEx"
    by (simp_all add: example_heap_def)
  from Release_pairs_with_destructor [of 0 "example_heap 1", THEN conjunct1]
  have never: "\<forall>n h'. Release 0 (example_heap 1) \<noteq> Throws (runtime_error n) h'" .
  from Release_pairs_with_destructor [of 0 "example_heap 1", THEN conjunct2, rule_format,
      of "\<lparr>m_refCount = 1, m_refCounterLock = Some 1, m_lockPolicy = LOCK_POLICY_CRITICALSECTION\<rparr>"
        1 CriticalSectionEx] o l
  have "Release 0 (example_heap 1) =
        Returns ((example_heap 1)\<lparr>objects := (objects (example_heap 1))(0 := None),
          locks := (locks (example_heap 1))(1 := None),
          trace := trace (example_heap 1) @
            [Lock 1, Store 0 0, Log Released 0 0, Store 0 1, Unlock 1,
             Delete_this 0,
             Lock 1, Store 0 0, Log Deleted 0 0, Unlock 1, Delete_lock 1]\<rparr>)"
    by simp
  then have "Release 0 (example_heap 1) =
     Returns \<lparr>objects = Map.empty, locks = Map.empty, next_addr = 2,
       trace = [Lock 1, Store 0 0, Log Released 0 0, Store 0 1, Unlock 1, Delete_this 0,
                Lock 1, Store 0 0, Log Deleted 0 0, Unlock 1, Delete_lock 1]\<rparr>"
    by (simp add: example_heap_def)
  with never o l show ?thesis by simp
qed

end
